theory Spec2Isabelle
  imports Complex_Main "HOL-Library.Multiset" "HOL-Library.Product_Lexorder"
begin

section \<open>The study schedule planning engine of server.js\<close>

text \<open>
  The embedding follows \<^verbatim>\<open>src/server.js\<close>: the route handlers
  \<^verbatim>\<open>POST /plans/:planId/generate\<close>, \<^verbatim>\<open>GET /plans/:planId/replan-preview\<close> and
  \<^verbatim>\<open>POST /plans/:planId/replan\<close>.

  Conventions of the model.
  \<^item> A calendar date is an \<open>int\<close>: the number of days since 1970-01-01. The JavaScript
    \<^verbatim>\<open>Date\<close> values of the handlers are all at a fixed time of day (local midnight, or
    23:59:59 for the exam date), are advanced by whole days with \<^verbatim>\<open>setDate\<close>, and are
    compared with \<^verbatim>\<open><=\<close>; on whole days that comparison is \<open>\<le>\<close>. The model takes the
    server's local time zone to be UTC, so that \<^verbatim>\<open>toISOString().split('T')[0]\<close> names the
    same day as the local date.
  \<^item> Hours are exact rationals (\<open>rat\<close>); the source computes with IEEE doubles.
  \<^item> \<^verbatim>\<open>new Date()\<close> and \<^verbatim>\<open>Math.random()\<close> are inputs of the model (\<open>today\<close>, \<open>rnd\<close>).
\<close>

subsection \<open>Dates and the weekday-to-hours object\<close>

text \<open>\<^verbatim>\<open>Date.prototype.getDay\<close>: 0 is Sunday, 6 is Saturday; 1970-01-01 was a Thursday.\<close>

definition getDay :: "int \<Rightarrow> nat" where
  "getDay d = nat ((d + 4) mod 7)"

text \<open>
  \<^verbatim>\<open>study_hours_per_day\<close> is a JSON object whose keys are the weekday numbers; it is
  modelled by the list of its entries. \<open>hoursOf h k\<close> is \<^verbatim>\<open>(h[k] || 0)\<close>: a missing key
  reads as \<^verbatim>\<open>undefined\<close>, which is falsy.
\<close>

type_synonym hours_map = "(nat \<times> rat) list"

definition hoursOf :: "hours_map \<Rightarrow> nat \<Rightarrow> rat" where
  "hoursOf h k = (case map_of h k of None \<Rightarrow> 0 | Some v \<Rightarrow> v)"

text \<open>
  The closure environment of one planning run: the request's hour map, the session
  duration, the plan's exam date and the current date.
\<close>

record planning_run =
  hours :: hours_map
  sessionDuration :: int
  examDate :: int
  today :: int

subsection \<open>Calendar availability index\<close>

record date_info =
  date :: int
  dayOfWeek :: nat
  maxSessions :: int

text \<open>
  \<^verbatim>\<open>getAvailableDates(startDate, endDate, weekdayOnly)\<close>, lines 627-650. The while loop walks
  \<open>currentDate\<close> from the start date to the end date. The memo table
  \<^verbatim>\<open>availableDatesCache\<close> only stores what this function computes and is left out.
  (The recurring mock loop advances a \<^verbatim>\<open>Date\<close> object that belongs to a cached list;
  its later lookups use strictly later start dates, hence other cache keys, so no
  altered list is read again in the run.)
\<close>

function getAvailableDates :: "planning_run \<Rightarrow> int \<Rightarrow> int \<Rightarrow> bool \<Rightarrow> date_info list" where
  "getAvailableDates e currentDate endDate weekdayOnly =
     (if currentDate \<le> endDate then
        (let dow = getDay currentDate;
             shouldSkip = (weekdayOnly \<and> (dow = 0 \<or> dow = 6))
         in (if \<not> shouldSkip \<and> hoursOf (hours e) dow > 0
             then [\<lparr>date = currentDate, dayOfWeek = dow,
                    maxSessions = \<lfloor>(hoursOf (hours e) dow * 60) / of_int (sessionDuration e)\<rfloor>\<rparr>]
             else [])
            @ getAvailableDates e (currentDate + 1) endDate weekdayOnly)
      else [])"
  by pat_completeness auto
termination
  by (relation "measure (\<lambda>(e, c, n, w). nat (n + 1 - c))") auto

declare getAvailableDates.simps [simp del]

text \<open>
  The test and the entry of the loop body for one date, named for the statements below.
\<close>

definition isAvailable :: "planning_run \<Rightarrow> bool \<Rightarrow> int \<Rightarrow> bool" where
  "isAvailable e weekdayOnly d =
     (\<not> (weekdayOnly \<and> (getDay d = 0 \<or> getDay d = 6)) \<and> hoursOf (hours e) (getDay d) > 0)"

definition dateInfoOf :: "planning_run \<Rightarrow> int \<Rightarrow> date_info" where
  "dateInfoOf e d =
     \<lparr>date = d, dayOfWeek = getDay d,
      maxSessions = \<lfloor>(hoursOf (hours e) (getDay d) * 60) / of_int (sessionDuration e)\<rfloor>\<rparr>"


subsection \<open>Sessions and the agenda accumulator\<close>

text \<open>
  The session types are the strings \<^verbatim>\<open>'Novo Topico'\<close>, \<^verbatim>\<open>'Revisao 7D'\<close> (the template
  \<^verbatim>\<open>`Revisao ${days}D`\<close>), \<^verbatim>\<open>'Redacao'\<close>, \<^verbatim>\<open>'Simulado Direcionado'\<close> and
  \<^verbatim>\<open>'Simulado Completo'\<close> of the source (written there with their accents). The subject
  and description texts are kept as the template that produces them together with the
  values the template interpolates.
\<close>

datatype session_type =
  NovoTopico | Revisao int | Redacao | SimuladoDirecionado | SimuladoCompleto

datatype subject_text =
  SubjectName string
  | RedacaoSubject
  | SimuladoDirecionadoSubject string
  | SimuladoCompletoSubject

datatype description_text =
  TopicDescription string
  | RedacaoDescription
  | SimuladoDirecionadoDescription string "nat option" "string list"
  | SimuladoCompletoGeralDescription
  | SimuladoCompletoFinalDescription

record session_draft =
  topicId :: "nat option"
  subjectName :: subject_text
  topicDescription :: description_text
  sessionType :: session_type

record agenda_session = session_draft +
  session_date :: int

text \<open>
  \<^verbatim>\<open>agenda\<close> is a JavaScript \<^verbatim>\<open>Map\<close> from the ISO date to the array of sessions of that
  date; its entries are kept in insertion order. \<open>sessionsOn\<close> is
  \<^verbatim>\<open>agenda.get(dateStr)?.length || 0\<close>.
\<close>

type_synonym agenda = "(int \<times> agenda_session list) list"

definition sessionsOn :: "agenda \<Rightarrow> int \<Rightarrow> nat" where
  "sessionsOn ag d = (case map_of ag d of None \<Rightarrow> 0 | Some ss \<Rightarrow> length ss)"

definition withDate :: "session_draft \<Rightarrow> int \<Rightarrow> agenda_session" where
  "withDate s d =
     \<lparr>topicId = topicId s, subjectName = subjectName s, topicDescription = topicDescription s,
      sessionType = sessionType s, session_date = d\<rparr>"

fun addSessionToAgenda :: "int \<Rightarrow> session_draft \<Rightarrow> agenda \<Rightarrow> agenda" where
  "addSessionToAgenda d s [] = [(d, [withDate s d])]"
| "addSessionToAgenda d s ((k, ss) # ag) =
     (if k = d then (k, ss @ [withDate s d]) # ag else (k, ss) # addSessionToAgenda d s ag)"

text \<open>\<^verbatim>\<open>Array.from(agenda.values()).flat()\<close>, line 864.\<close>

definition sessionsToCreate :: "agenda \<Rightarrow> agenda_session list" where
  "sessionsToCreate ag = concat (map snd ag)"

text \<open>\<^verbatim>\<open>findNextAvailableSlot\<close> (lines 673-681) and \<^verbatim>\<open>getNextSaturdayForReview\<close> (683-690).\<close>

definition hasRoom :: "agenda \<Rightarrow> date_info \<Rightarrow> bool" where
  "hasRoom ag dateInfo = (int (sessionsOn ag (date dateInfo)) < maxSessions dateInfo)"

text \<open>The same test stated on a date: the date has fewer sessions than its capacity.\<close>

definition capacity :: "planning_run \<Rightarrow> int \<Rightarrow> int" where
  "capacity e d = \<lfloor>(hoursOf (hours e) (getDay d) * 60) / of_int (sessionDuration e)\<rfloor>"

definition room :: "planning_run \<Rightarrow> agenda \<Rightarrow> int \<Rightarrow> bool" where
  "room e ag d = (int (sessionsOn ag d) < capacity e d)"

definition findNextAvailableSlot :: "planning_run \<Rightarrow> agenda \<Rightarrow> int \<Rightarrow> bool \<Rightarrow> int option" where
  "findNextAvailableSlot e ag startDate isWeekdayOnly =
     map_option date (find (hasRoom ag) (getAvailableDates e startDate (examDate e) isWeekdayOnly))"

definition getNextSaturdayForReview :: "planning_run \<Rightarrow> agenda \<Rightarrow> int \<Rightarrow> int option" where
  "getNextSaturdayForReview e ag d =
     map_option date
       (find (hasRoom ag)
          (filter (\<lambda>di. dayOfWeek di = 6) (getAvailableDates e d (examDate e) False)))"

subsection \<open>Topics and the two topic queries\<close>

datatype status_text = Pendente | Concluido

text \<open>A row of the join of \<^verbatim>\<open>topics\<close> with \<^verbatim>\<open>subjects\<close>, as both queries select it.\<close>

record topic =
  topic_id :: nat
  description :: string
  status :: status_text
  completion_date :: "int option"
  subject_name :: string
  priority :: nat

text \<open>
  \<^verbatim>\<open>ORDER BY s.priority_weight DESC, t.id ASC\<close> (lines 605-614) and
  \<^verbatim>\<open>WHERE ... t.status = 'Concluido' AND t.completion_date IS NOT NULL
  ORDER BY t.completion_date DESC\<close> (lines 692-699). SQL leaves the order of rows with
  equal keys open; the model sorts stably.
\<close>

definition allTopicsQuery :: "topic list \<Rightarrow> topic list" where
  "allTopicsQuery ts = sort_key (\<lambda>t. (- int (priority t), topic_id t)) ts"

definition completedTopicsQuery :: "topic list \<Rightarrow> topic list" where
  "completedTopicsQuery ts =
     sort_key (\<lambda>t. case completion_date t of None \<Rightarrow> 0 | Some d \<Rightarrow> - d)
       (filter (\<lambda>t. status t = Concluido \<and> completion_date t \<noteq> None) ts)"

subsection \<open>Essay Sundays and the reviews of completed topics\<close>

definition essayDraft :: session_draft where
  "essayDraft =
     \<lparr>topicId = None, subjectName = RedacaoSubject, topicDescription = RedacaoDescription,
      sessionType = Redacao\<rparr>"

text \<open>Lines 661-671: one essay session on every available Sunday, added as it is.\<close>

definition essayPhase :: "planning_run \<Rightarrow> agenda \<Rightarrow> agenda" where
  "essayPhase e ag =
     fold (\<lambda>dateInfo. addSessionToAgenda (date dateInfo) essayDraft)
       (filter (\<lambda>di. dayOfWeek di = 0) (getAvailableDates e (today e) (examDate e) False)) ag"

definition reviewDraft :: "topic \<Rightarrow> int \<Rightarrow> session_draft" where
  "reviewDraft t days =
     \<lparr>topicId = Some (topic_id t), subjectName = SubjectName (subject_name t),
      topicDescription = TopicDescription (description t), sessionType = Revisao days\<rparr>"

text \<open>The body of \<^verbatim>\<open>[7, 14, 28].forEach\<close> in the loop over the completed topics, 703-712.\<close>

definition completedReview :: "planning_run \<Rightarrow> topic \<Rightarrow> int \<Rightarrow> int \<Rightarrow> agenda \<Rightarrow> agenda" where
  "completedReview e t baseDate days ag =
     (let targetReviewDate = baseDate + days
      in if targetReviewDate \<ge> today e \<and> targetReviewDate \<le> examDate e
         then (case getNextSaturdayForReview e ag targetReviewDate of
                 Some reviewDay \<Rightarrow> addSessionToAgenda reviewDay (reviewDraft t days) ag
               | None \<Rightarrow> ag)
         else ag)"

text \<open>
  A completion date that is NULL gives an invalid \<^verbatim>\<open>Date\<close>, whose comparisons are all
  false: no review. (The query excludes such rows.)
\<close>

definition completedTopicReviews :: "planning_run \<Rightarrow> topic \<Rightarrow> agenda \<Rightarrow> agenda" where
  "completedTopicReviews e t ag =
     (case completion_date t of
        None \<Rightarrow> ag
      | Some baseDate \<Rightarrow> fold (completedReview e t baseDate) [7, 14, 28] ag)"

definition completedReviews :: "planning_run \<Rightarrow> topic list \<Rightarrow> agenda \<Rightarrow> agenda" where
  "completedReviews e completedTopics ag = fold (completedTopicReviews e) completedTopics ag"

subsection \<open>New-content distributor\<close>

text \<open>
  Lines 715-721. \<open>rnd i\<close> is the value of \<^verbatim>\<open>Math.random()\<close> drawn in the iteration
  with loop variable \<open>i\<close>; \<^verbatim>\<open>Math.random\<close> returns a number in \<open>[0, 1)\<close>.
\<close>

definition weightedTopics :: "topic list \<Rightarrow> topic list" where
  "weightedTopics pendingTopics = concat (map (\<lambda>t. replicate (priority t) t) pendingTopics)"

fun fisherYates :: "(nat \<Rightarrow> rat) \<Rightarrow> nat \<Rightarrow> 'a list \<Rightarrow> 'a list" where
  "fisherYates rnd 0 xs = xs"
| "fisherYates rnd (Suc i) xs =
     (let j = nat \<lfloor>rnd (Suc i) * of_nat (Suc i + 1)\<rfloor>
      in fisherYates rnd i (xs[Suc i := xs ! j, j := xs ! Suc i]))"

definition shuffle :: "(nat \<Rightarrow> rat) \<Rightarrow> 'a list \<Rightarrow> 'a list" where
  "shuffle rnd xs = fisherYates rnd (length xs - 1) xs"

text \<open>
  \<^verbatim>\<open>new Map(entries)\<close> sets the entries one after the other: a key that is already
  present keeps its position and takes the new value.
\<close>

fun mapSet :: "'k \<Rightarrow> 'v \<Rightarrow> ('k \<times> 'v) list \<Rightarrow> ('k \<times> 'v) list" where
  "mapSet k v [] = [(k, v)]"
| "mapSet k v ((k', v') # m) = (if k' = k then (k, v) # m else (k', v') # mapSet k v m)"

definition uniqueById :: "topic list \<Rightarrow> topic list" where
  "uniqueById ts = map snd (fold (\<lambda>item m. mapSet (topic_id item) item m) ts [])"

definition uniquePendingTopicsInOrder :: "(nat \<Rightarrow> rat) \<Rightarrow> topic list \<Rightarrow> topic list" where
  "uniquePendingTopicsInOrder rnd pendingTopics = uniqueById (shuffle rnd (weightedTopics pendingTopics))"

definition newTopicDraft :: "topic \<Rightarrow> session_draft" where
  "newTopicDraft t =
     \<lparr>topicId = Some (topic_id t), subjectName = SubjectName (subject_name t),
      topicDescription = TopicDescription (description t), sessionType = NovoTopico\<rparr>"

text \<open>The body of \<^verbatim>\<open>[7, 14, 28].forEach\<close> in the new-topic loop, lines 735-744.\<close>

definition newTopicReview :: "planning_run \<Rightarrow> topic \<Rightarrow> int \<Rightarrow> int \<Rightarrow> agenda \<Rightarrow> agenda" where
  "newTopicReview e t studyDay days ag =
     (let targetReviewDate = studyDay + days
      in if targetReviewDate \<le> examDate e
         then (case getNextSaturdayForReview e ag targetReviewDate of
                 Some reviewDay \<Rightarrow> addSessionToAgenda reviewDay (reviewDraft t days) ag
               | None \<Rightarrow> ag)
         else ag)"

text \<open>
  The loop of lines 726-745 with its \<^verbatim>\<open>break\<close>; the state is the cursor
  \<open>currentDateForNewTopics\<close>, \<open>lastNewTopicDate\<close> and the agenda.
\<close>

fun newTopicLoop ::
  "planning_run \<Rightarrow> topic list \<Rightarrow> int \<Rightarrow> int option \<Rightarrow> agenda \<Rightarrow> agenda \<times> int option" where
  "newTopicLoop e [] currentDateForNewTopics lastNewTopicDate ag = (ag, lastNewTopicDate)"
| "newTopicLoop e (t # ts) currentDateForNewTopics lastNewTopicDate ag =
     (case findNextAvailableSlot e ag currentDateForNewTopics True of
        None \<Rightarrow> (ag, lastNewTopicDate)
      | Some studyDay \<Rightarrow>
          newTopicLoop e ts studyDay (Some studyDay)
            (fold (newTopicReview e t studyDay) [7, 14, 28]
               (addSessionToAgenda studyDay (newTopicDraft t) ag)))"


subsection \<open>Exam-simulation injector\<close>

text \<open>
  Lines 771-786: the per-subject entries \<open>(subject, completed descriptions, total)\<close> in
  insertion order, then those with at least two completed topics, sorted by the number of
  completed topics, largest first (\<^verbatim>\<open>Array.prototype.sort\<close> is stable).
\<close>

fun subjectCompletionAdd ::
  "topic \<Rightarrow> (string \<times> string list \<times> nat) list \<Rightarrow> (string \<times> string list \<times> nat) list" where
  "subjectCompletionAdd t [] =
     [(subject_name t, (if status t = Concluido then [description t] else []), 1)]"
| "subjectCompletionAdd t ((k, completed, n) # m) =
     (if k = subject_name t
      then (k, (if status t = Concluido then completed @ [description t] else completed),
            n + 1) # m
      else (k, completed, n) # subjectCompletionAdd t m)"

definition subjectCompletionMap :: "topic list \<Rightarrow> (string \<times> string list \<times> nat) list" where
  "subjectCompletionMap allTopics = fold subjectCompletionAdd allTopics []"

definition subjectsReadyForSim :: "topic list \<Rightarrow> (string \<times> string list \<times> nat) list" where
  "subjectsReadyForSim allTopics =
     sort_key (\<lambda>(subject, completed, n). - int (length completed))
       (filter (\<lambda>(subject, completed, n). length completed \<ge> 2)
          (subjectCompletionMap allTopics))"

text \<open>Lines 793-796: \<^verbatim>\<open>for (i = 0; i < n; i += 4) push(slice(i, i + 4))\<close>.\<close>

function topicGroupsFrom :: "nat \<Rightarrow> 'a list \<Rightarrow> 'a list list" where
  "topicGroupsFrom i completed =
     (if i < length completed
      then take 4 (drop i completed) # topicGroupsFrom (i + 4) completed
      else [])"
  by pat_completeness auto
termination
  by (relation "measure (\<lambda>(i, completed). length completed - i)") auto

declare topicGroupsFrom.simps [simp del]

definition directedDraft :: "string \<Rightarrow> nat \<Rightarrow> nat \<Rightarrow> string list \<Rightarrow> session_draft" where
  "directedDraft subject groupCount groupIndex topicGroup =
     \<lparr>topicId = None, subjectName = SimuladoDirecionadoSubject subject,
      topicDescription =
        SimuladoDirecionadoDescription subject
          (if groupCount > 1 then Some (groupIndex + 1) else None) topicGroup,
      sessionType = SimuladoDirecionado\<rparr>"

text \<open>
  The inner loop of lines 798-816 over the groups of one subject; its \<^verbatim>\<open>break\<close> leaves
  this loop only. The state is \<open>currentDirectedSimDate\<close> and the agenda.
\<close>

fun directedGroups ::
  "planning_run \<Rightarrow> string \<Rightarrow> nat \<Rightarrow> nat \<Rightarrow> string list list \<Rightarrow> int \<times> agenda \<Rightarrow> int \<times> agenda" where
  "directedGroups e subject groupCount groupIndex [] (currentDirectedSimDate, ag) =
     (currentDirectedSimDate, ag)"
| "directedGroups e subject groupCount groupIndex (topicGroup # rest) (currentDirectedSimDate, ag) =
     (case findNextAvailableSlot e ag currentDirectedSimDate False of
        None \<Rightarrow> (currentDirectedSimDate, ag)
      | Some nextSimulatedDay \<Rightarrow>
          directedGroups e subject groupCount (groupIndex + 1) rest
            (nextSimulatedDay + 3,
             addSessionToAgenda nextSimulatedDay
               (directedDraft subject groupCount groupIndex topicGroup) ag))"

definition directedSubject ::
  "planning_run \<Rightarrow> string \<times> string list \<times> nat \<Rightarrow> int \<times> agenda \<Rightarrow> int \<times> agenda" where
  "directedSubject e entry st =
     (case entry of (subject, completed, n) \<Rightarrow>
        (let topicGroups = topicGroupsFrom 0 completed
         in directedGroups e subject (length topicGroups) 0 topicGroups st))"

definition directedPhase :: "planning_run \<Rightarrow> topic list \<Rightarrow> int \<Rightarrow> agenda \<Rightarrow> agenda" where
  "directedPhase e allTopics maintenanceStartDate ag =
     snd (fold (directedSubject e) (subjectsReadyForSim allTopics) (maintenanceStartDate, ag))"

definition basicCompleteDraft :: session_draft where
  "basicCompleteDraft =
     \<lparr>topicId = None, subjectName = SimuladoCompletoSubject,
      topicDescription = SimuladoCompletoGeralDescription, sessionType = SimuladoCompleto\<rparr>"

text \<open>Lines 822-832, the body of the second gate.\<close>

definition basicCompletePhase :: "planning_run \<Rightarrow> int \<Rightarrow> agenda \<Rightarrow> agenda" where
  "basicCompletePhase e maintenanceStartDate ag =
     (let basicCompleteSimDate = maintenanceStartDate + 7
      in case findNextAvailableSlot e ag basicCompleteSimDate False of
           Some basicCompleteSlot \<Rightarrow> addSessionToAgenda basicCompleteSlot basicCompleteDraft ag
         | None \<Rightarrow> ag)"

definition finalCompleteDraft :: session_draft where
  "finalCompleteDraft =
     \<lparr>topicId = None, subjectName = SimuladoCompletoSubject,
      topicDescription = SimuladoCompletoFinalDescription, sessionType = SimuladoCompleto\<rparr>"

text \<open>
  Lines 845-860: at most \<open>maxSimulados = 20\<close> sessions, the next search starting
  \<open>simuladoFrequency = 3\<close> days after the date just used.
\<close>

function recurringLoop :: "planning_run \<Rightarrow> nat \<Rightarrow> int \<Rightarrow> agenda \<Rightarrow> agenda" where
  "recurringLoop e simuladoCount nextMaintenanceDay ag =
     (if simuladoCount < 20
      then (case findNextAvailableSlot e ag nextMaintenanceDay False of
              None \<Rightarrow> ag
            | Some d \<Rightarrow>
                recurringLoop e (simuladoCount + 1) (d + 3)
                  (addSessionToAgenda d finalCompleteDraft ag))
      else ag)"
  by pat_completeness auto
termination
  by (relation "measure (\<lambda>(e, simuladoCount, d, ag). 20 - simuladoCount)") auto

declare recurringLoop.simps [simp del]

text \<open>
  Lines 767-770, 821 and 836: the three phases have the same gate. Here
  \<open>completedTopics\<close> is the result of the completed-topics query.
\<close>

definition progressPercentage :: "topic list \<Rightarrow> topic list \<Rightarrow> rat" where
  "progressPercentage completedTopics allTopics =
     of_nat (length completedTopics) / of_nat (length allTopics)"

definition simulationGate :: "topic list \<Rightarrow> topic list \<Rightarrow> topic list \<Rightarrow> bool" where
  "simulationGate pendingTopics completedTopics allTopics =
     (length pendingTopics = 0 \<and> progressPercentage completedTopics allTopics \<ge> 95 / 100)"

definition simulationPhase ::
  "planning_run \<Rightarrow> topic list \<Rightarrow> topic list \<Rightarrow> topic list \<Rightarrow> int \<Rightarrow> agenda \<Rightarrow> agenda" where
  "simulationPhase e pendingTopics completedTopics allTopics maintenanceStartDate ag =
     (let ag1 = (if simulationGate pendingTopics completedTopics allTopics
                 then directedPhase e allTopics maintenanceStartDate ag else ag);
          ag2 = (if simulationGate pendingTopics completedTopics allTopics
                 then basicCompletePhase e maintenanceStartDate ag1 else ag1)
      in if simulationGate pendingTopics completedTopics allTopics
         then recurringLoop e 0 (maintenanceStartDate + 5) ag2 else ag2)"

subsection \<open>The generate handler\<close>

text \<open>Lines 652-862: the agenda that one run builds.\<close>

definition buildAgenda ::
  "planning_run \<Rightarrow> bool \<Rightarrow> topic list \<Rightarrow> topic list \<Rightarrow> (nat \<Rightarrow> rat) \<Rightarrow> agenda" where
  "buildAgenda e hasEssay allTopics completedTopics rnd =
     (let ag1 = (if hasEssay then essayPhase e [] else []);
          ag2 = completedReviews e completedTopics ag1;
          pendingTopics = filter (\<lambda>t. status t \<noteq> Concluido) allTopics;
          (ag3, lastNewTopicDate) =
             newTopicLoop e (uniquePendingTopicsInOrder rnd pendingTopics) (today e) None ag2;
          maintenanceStartDate =
             (case lastNewTopicDate of Some d \<Rightarrow> d | None \<Rightarrow> today e) + 1;
          hasPendingNewTopics = (length pendingTopics > 0)
      in if \<not> hasPendingNewTopics
         then simulationPhase e pendingTopics completedTopics allTopics maintenanceStartDate ag3
         else ag3)"

text \<open>
  The stored data of one plan: its row of \<^verbatim>\<open>study_plans\<close> (absent when the plan does not
  exist), the topic rows joined with their subjects, the rows of \<^verbatim>\<open>study_sessions\<close>, and
  the next free row id of that table.
\<close>

record study_plan =
  exam_date :: int
  has_essay :: bool
  session_duration_minutes :: "int option"
  study_hours_per_day :: hours_map
  postponement_count :: int

record study_session = agenda_session +
  session_id :: nat
  session_status :: status_text

record store =
  plan :: "study_plan option"
  topics :: "topic list"
  sessions :: "study_session list"
  next_session_id :: nat

record generate_request =
  req_session_duration_minutes :: int
  req_study_hours_per_day :: hours_map

text \<open>
  \<open>ScheduleCommitted\<close> stands for the end of the full path: after \<^verbatim>\<open>COMMIT\<close> the handler
  builds its success response from \<^verbatim>\<open>endTime - startTime\<close>, and \<^verbatim>\<open>startTime\<close> is declared
  nowhere in the file; the sessions are committed by then.
\<close>

datatype generate_response =
  PlanNotFound | NoStudyHours | NoTopicsFound | ScheduleCommitted nat nat

text \<open>
  \<^verbatim>\<open>parseInt(h, 10) || 0\<close> on a number written without exponent: the digits before the
  decimal point, that is truncation towards zero.
\<close>

definition parseInt10 :: "rat \<Rightarrow> int" where
  "parseInt10 h = (if 0 \<le> h then \<lfloor>h\<rfloor> else \<lceil>h\<rceil>)"

definition totalWeeklyHours :: "hours_map \<Rightarrow> int" where
  "totalWeeklyHours h = fold (\<lambda>v sum. sum + parseInt10 v) (map snd h) 0"

fun insertSessions :: "nat \<Rightarrow> agenda_session list \<Rightarrow> study_session list" where
  "insertSessions n [] = []"
| "insertSessions n (s # ss) =
     \<lparr>topicId = topicId s, subjectName = subjectName s, topicDescription = topicDescription s,
      sessionType = sessionType s, session_date = session_date s,
      session_id = n, session_status = Pendente\<rparr> # insertSessions (Suc n) ss"

text \<open>
  Lines 621-624: \<^verbatim>\<open>parseInt(session_duration_minutes, 10) || 50\<close>, the exam date of the
  plan row, and today.
\<close>

definition planningRunOf :: "study_plan \<Rightarrow> generate_request \<Rightarrow> int \<Rightarrow> planning_run" where
  "planningRunOf p req now =
     \<lparr>hours = req_study_hours_per_day req,
      sessionDuration =
        (if req_session_duration_minutes req = 0 then 50 else req_session_duration_minutes req),
      examDate = exam_date p, today = now\<rparr>"

text \<open>
  The handler, lines 584-905. The \<^verbatim>\<open>UPDATE\<close> of line 588 touches no session; \<open>plan st\<close>
  is the row that line 591 reads back. \<^verbatim>\<open>ROLLBACK\<close> returns the store as it was,
  \<^verbatim>\<open>COMMIT\<close> the store as changed.
\<close>

definition generate ::
  "store \<Rightarrow> generate_request \<Rightarrow> int \<Rightarrow> (nat \<Rightarrow> rat) \<Rightarrow> generate_response \<times> store" where
  "generate st req now rnd =
     (case plan st of
        None \<Rightarrow> (PlanNotFound, st)
      | Some p \<Rightarrow>
          if totalWeeklyHours (req_study_hours_per_day req) = 0 then (NoStudyHours, st)
          else
            (let st1 = st\<lparr>sessions := []\<rparr>;
                 allTopics = allTopicsQuery (topics st1)
             in if length allTopics = 0 then (NoTopicsFound, st1)
                else
                  (let e = planningRunOf p req now;
                       completedTopics = completedTopicsQuery (topics st1);
                       ag = buildAgenda e (has_essay p) allTopics completedTopics rnd;
                       rows = insertSessions (next_session_id st1) (sessionsToCreate ag)
                   in (ScheduleCommitted (length rows) (length allTopics),
                       st1\<lparr>sessions := rows,
                           next_session_id := next_session_id st1 + length rows\<rparr>))))"


subsection \<open>Overdue redistribution: preview and commit\<close>

text \<open>
  The query of lines 929-930 and 1028-1029:
  \<^verbatim>\<open>status = 'Pendente' AND session_date < today ORDER BY session_date, id\<close>.
\<close>

definition overdueSessions :: "study_session list \<Rightarrow> int \<Rightarrow> study_session list" where
  "overdueSessions rows todayStr =
     sort_key (\<lambda>s. (session_date s, session_id s))
       (filter (\<lambda>s. session_status s = Pendente \<and> session_date s < todayStr) rows)"

definition planSessionDuration :: "study_plan \<Rightarrow> int" where
  "planSessionDuration p =
     (case session_duration_minutes p of
        None \<Rightarrow> 50
      | Some d \<Rightarrow> if d = 0 then 50 else d)"

text \<open>
  Lines 945-957: \<^verbatim>\<open>sessionCountsCache\<close>, the number of stored sessions of each date
  between today and the exam date, as the \<^verbatim>\<open>GROUP BY\<close> query returns it.
\<close>

definition sessionCountsQuery :: "study_session list \<Rightarrow> int \<Rightarrow> int \<Rightarrow> (int \<rightharpoonup> nat)" where
  "sessionCountsQuery rows todayStr endDateStr =
     (\<lambda>d. let c = length (filter (\<lambda>s. session_date s = d) rows)
          in if todayStr \<le> d \<and> d \<le> endDateStr \<and> c > 0 then Some c else None)"

text \<open>
  Line 968: \<^verbatim>\<open>studyHoursPerDay[Object.keys(studyHoursPerDay)[dayOfWeek]]\<close>.
  \<^verbatim>\<open>Object.keys\<close> lists integer keys in ascending order.
\<close>

definition objectKeys :: "hours_map \<Rightarrow> nat list" where
  "objectKeys h = sort (remdups (map fst h))"

definition previewHoursForDay :: "hours_map \<Rightarrow> nat \<Rightarrow> rat" where
  "previewHoursForDay h dow =
     (if dow < length (objectKeys h) then hoursOf h (objectKeys h ! dow) else 0)"

record preview_entry =
  sessionId :: nat
  topic :: description_text
  subject :: subject_text
  previewSessionType :: session_type
  originalDate :: int
  newDate :: int

text \<open>
  The while loop of lines 965-996 for one session. It returns the cursor \<open>currentDate\<close>
  as the loop leaves it and whether it left by \<^verbatim>\<open>break\<close>, a slot found.
\<close>

function previewScan ::
  "hours_map \<Rightarrow> int \<Rightarrow> int \<Rightarrow> (int \<rightharpoonup> nat) \<Rightarrow> int \<Rightarrow> int \<times> bool" where
  "previewScan h dur exam cache currentDate =
     (if currentDate \<le> exam then
        (let hoursForDay = previewHoursForDay h (getDay currentDate);
             minutesAvailable = hoursForDay * 60;
             sessionsCount = (case cache currentDate of None \<Rightarrow> 0 | Some c \<Rightarrow> int c);
             usedMinutes = sessionsCount * dur
         in if hoursForDay > 0 \<and> of_int (usedMinutes + dur) \<le> minutesAvailable
            then (currentDate, True)
            else previewScan h dur exam cache (currentDate + 1))
      else (currentDate, False))"
  by pat_completeness auto
termination
  by (relation "measure (\<lambda>(h, dur, exam, cache, c). nat (exam + 1 - c))") auto

declare previewScan.simps [simp del]

text \<open>The for loop of lines 963-997; the cursor and the cache are shared by its rounds.\<close>

fun previewLoop ::
  "hours_map \<Rightarrow> int \<Rightarrow> int \<Rightarrow> study_session list \<Rightarrow> int \<Rightarrow> (int \<rightharpoonup> nat) \<Rightarrow> preview_entry list" where
  "previewLoop h dur exam [] currentDate cache = []"
| "previewLoop h dur exam (s # rest) currentDate cache =
     (let (d, found) = previewScan h dur exam cache currentDate
      in if found
         then \<lparr>sessionId = session_id s, topic = topicDescription s, subject = subjectName s,
               previewSessionType = sessionType s, originalDate = session_date s, newDate = d\<rparr>
              # previewLoop h dur exam rest d
                  (cache(d \<mapsto> (case cache d of None \<Rightarrow> 0 | Some c \<Rightarrow> c) + 1))
         else previewLoop h dur exam rest d cache)"

text \<open>
  The response of the preview: \<open>hasOverdue = false\<close>, or the record of lines 999-1008
  (without its fixed texts and the two fields that only restate the exam date).
\<close>

record preview_result =
  count :: nat
  replanPreview :: "preview_entry list"
  totalToReplan :: nat

datatype preview_response = PreviewPlanNotFound | NoOverdue | HasOverdue preview_result

definition replanPreviewList :: "study_plan \<Rightarrow> study_session list \<Rightarrow> int \<Rightarrow> preview_entry list" where
  "replanPreviewList p rows todayStr =
     previewLoop (study_hours_per_day p) (planSessionDuration p) (exam_date p)
       (overdueSessions rows todayStr) todayStr
       (sessionCountsQuery rows todayStr (exam_date p))"

text \<open>
  The handler of lines 919-1015. It issues \<^verbatim>\<open>SELECT\<close> statements only; the store it
  returns is the store it was given.
\<close>

definition replanPreviewHandler :: "store \<Rightarrow> int \<Rightarrow> preview_response \<times> store" where
  "replanPreviewHandler st todayStr =
     (case plan st of
        None \<Rightarrow> (PreviewPlanNotFound, st)
      | Some p \<Rightarrow>
          if length (overdueSessions (sessions st) todayStr) = 0 then (NoOverdue, st)
          else
            (let replanPreviewAll = replanPreviewList p (sessions st) todayStr
             in (HasOverdue
                   \<lparr>count = length (overdueSessions (sessions st) todayStr),
                    replanPreview = take 5 replanPreviewAll,
                    totalToReplan = length replanPreviewAll\<rparr>, st)))"

text \<open>
  The commit path. \<^verbatim>\<open>findNextAvailableSlot\<close> of lines 1039-1062 counts the stored
  sessions of the date with a query and skips every Sunday.
\<close>

function replanFindNextAvailableSlot ::
  "hours_map \<Rightarrow> int \<Rightarrow> int \<Rightarrow> study_session list \<Rightarrow> int \<Rightarrow> int option" where
  "replanFindNextAvailableSlot h dur exam rows currentDate =
     (if currentDate \<le> exam then
        (let dow = getDay currentDate
         in if dow = 0 then replanFindNextAvailableSlot h dur exam rows (currentDate + 1)
            else
              (let totalMinutes = hoursOf h dow * 60;
                   maxSessionsOfDay = \<lfloor>totalMinutes / of_int dur\<rfloor>;
                   currentSessionCount =
                     int (length (filter (\<lambda>s. session_date s = currentDate) rows))
               in if totalMinutes > 0 \<and> currentSessionCount < maxSessionsOfDay
                  then Some currentDate
                  else replanFindNextAvailableSlot h dur exam rows (currentDate + 1)))
      else None)"
  by pat_completeness auto
termination
  by (relation "measure (\<lambda>(h, dur, exam, rows, c). nat (exam + 1 - c))") auto

declare replanFindNextAvailableSlot.simps [simp del]

text \<open>\<^verbatim>\<open>UPDATE study_sessions SET session_date = ? WHERE id = ?\<close>, line 1071.\<close>

definition updateSessionDate :: "nat \<Rightarrow> int \<Rightarrow> study_session list \<Rightarrow> study_session list" where
  "updateSessionDate sid d rows =
     map (\<lambda>s. if session_id s = sid then s\<lparr>session_date := d\<rparr> else s) rows"

text \<open>The loop of lines 1066-1076 with its \<^verbatim>\<open>break\<close>.\<close>

fun replanLoop ::
  "hours_map \<Rightarrow> int \<Rightarrow> int \<Rightarrow> study_session list \<Rightarrow> int \<Rightarrow> study_session list
     \<Rightarrow> study_session list" where
  "replanLoop h dur exam [] dateForNextSlot rows = rows"
| "replanLoop h dur exam (s # rest) dateForNextSlot rows =
     (case replanFindNextAvailableSlot h dur exam rows dateForNextSlot of
        Some slot \<Rightarrow>
          replanLoop h dur exam rest slot (updateSessionDate (session_id s) slot rows)
      | None \<Rightarrow> rows)"

datatype replan_response = ReplanPlanNotFound | NothingToReplan | Replanned nat

definition replanCommit :: "store \<Rightarrow> int \<Rightarrow> replan_response \<times> store" where
  "replanCommit st todayStr =
     (case plan st of
        None \<Rightarrow> (ReplanPlanNotFound, st)
      | Some p \<Rightarrow>
          if length (overdueSessions (sessions st) todayStr) = 0 then (NothingToReplan, st)
          else
            (Replanned (length (overdueSessions (sessions st) todayStr)),
             st\<lparr>sessions :=
                   replanLoop (study_hours_per_day p) (planSessionDuration p) (exam_date p)
                     (overdueSessions (sessions st) todayStr) todayStr (sessions st),
                 plan := Some (p\<lparr>postponement_count := postponement_count p + 1\<rparr>)\<rparr>))"


subsection \<open>Example inputs\<close>

text \<open>
  Day 3 is Sunday 1970-01-04, day 4 a Monday. Four hours from Monday to Saturday, none
  on Sunday; sessions of 50 minutes.
\<close>

definition weekHours :: hours_map where
  "weekHours = [(0, 0), (1, 4), (2, 4), (3, 4), (4, 4), (5, 4), (6, 4)]"


text \<open>
  A plan with exam date day 12 and the essay flag set, one stored session, and one
  pending topic; requests with half an hour on every day, and with one hour on Sunday
  at sessions of 90 minutes.
\<close>

definition storedEssay :: study_session where
  "storedEssay =
     \<lparr>topicId = None, subjectName = RedacaoSubject, topicDescription = RedacaoDescription,
      sessionType = Redacao, session_date = 10, session_id = 1, session_status = Pendente\<rparr>"

definition weekPlan :: study_plan where
  "weekPlan =
     \<lparr>exam_date = 12, has_essay = True, session_duration_minutes = Some 50,
      study_hours_per_day = weekHours, postponement_count = 0\<rparr>"

definition pendingTopic :: topic where
  "pendingTopic =
     \<lparr>topic_id = 1, description = ''t1'', status = Pendente, completion_date = None,
      subject_name = ''s1'', priority = 1\<rparr>"

definition emptyTopicStore :: store where
  "emptyTopicStore = \<lparr>plan = Some weekPlan, topics = [], sessions = [storedEssay], next_session_id = 2\<rparr>"

definition oneTopicStore :: store where
  "oneTopicStore = \<lparr>plan = Some weekPlan, topics = [pendingTopic], sessions = [storedEssay], next_session_id = 2\<rparr>"

definition weekRequest :: generate_request where
  "weekRequest = \<lparr>req_session_duration_minutes = 50, req_study_hours_per_day = weekHours\<rparr>"

definition halfHours :: hours_map where
  "halfHours = [(0, 1/2), (1, 1/2), (2, 1/2), (3, 1/2), (4, 1/2), (5, 1/2), (6, 1/2)]"

definition halfHourRequest :: generate_request where
  "halfHourRequest = \<lparr>req_session_duration_minutes = 30, req_study_hours_per_day = halfHours\<rparr>"

definition shortSundayHours :: hours_map where
  "shortSundayHours = [(0, 1), (1, 2), (2, 2), (3, 2), (4, 2), (5, 2), (6, 2)]"

definition shortSundayRequest :: generate_request where
  "shortSundayRequest = \<lparr>req_session_duration_minutes = 90, req_study_hours_per_day = shortSundayHours\<rparr>"

subsection \<open>Notions used in the statements\<close>

text \<open>The number of sessions of an agenda that carry a given date.\<close>

definition countOn :: "agenda \<Rightarrow> int \<Rightarrow> nat" where
  "countOn ag d = length (filter (\<lambda>s. session_date s = d) (sessionsToCreate ag))"


text \<open>The agenda after the essay phase, from which the later phases place their sessions.\<close>

definition essayAgenda :: "planning_run \<Rightarrow> bool \<Rightarrow> agenda" where
  "essayAgenda e hasEssay = (if hasEssay then essayPhase e [] else [])"


text \<open>
  \<open>placed ok ag ag'\<close>: the agenda \<open>ag'\<close> comes from \<open>ag\<close> by adding sessions one at a
  time, each addition of a draft \<open>s\<close> on a date \<open>d\<close> to an agenda \<open>a\<close> satisfying
  \<open>ok a d s\<close>.
\<close>

inductive placed :: "(agenda \<Rightarrow> int \<Rightarrow> session_draft \<Rightarrow> bool) \<Rightarrow> agenda \<Rightarrow> agenda \<Rightarrow> bool"
  for ok :: "agenda \<Rightarrow> int \<Rightarrow> session_draft \<Rightarrow> bool" and ag :: agenda where
  placed_refl: "placed ok ag ag"
| placed_add: "placed ok ag ag' \<Longrightarrow> ok ag' d s \<Longrightarrow> placed ok ag (addSessionToAgenda d s ag')"

text \<open>
  A date that a slot search may return: from today to the exam date, with hours, and
  with room in the agenda searched.
\<close>

definition slotOk :: "planning_run \<Rightarrow> agenda \<Rightarrow> int \<Rightarrow> bool" where
  "slotOk e ag d =
     (today e \<le> d \<and> d \<le> examDate e \<and> isAvailable e False d \<and> room e ag d)"

text \<open>
  The additions of the three later stages of a run: a review of a completed topic; a
  new topic on a weekday, or a review anchored to a new-topic session already in the
  agenda; a mock exam.
\<close>

definition completedReviewOk ::
  "planning_run \<Rightarrow> topic list \<Rightarrow> agenda \<Rightarrow> int \<Rightarrow> session_draft \<Rightarrow> bool" where
  "completedReviewOk e cs ag d s =
     (slotOk e ag d \<and> getDay d = 6
      \<and> (\<exists>t \<in> set cs. \<exists>k \<in> {7, 14, 28}. \<exists>X.
            completion_date t = Some X \<and> today e \<le> X + k \<and> X + k \<le> d
            \<and> s = reviewDraft t k))"

definition newTopicOk ::
  "planning_run \<Rightarrow> topic list \<Rightarrow> agenda \<Rightarrow> int \<Rightarrow> session_draft \<Rightarrow> bool" where
  "newTopicOk e ts ag d s =
     (slotOk e ag d
      \<and> ((getDay d \<noteq> 0 \<and> getDay d \<noteq> 6 \<and> (\<exists>t \<in> set ts. s = newTopicDraft t))
         \<or> (getDay d = 6
            \<and> (\<exists>t \<in> set ts. \<exists>k \<in> {7, 14, 28}. \<exists>X.
                  withDate (newTopicDraft t) X \<in> set (sessionsToCreate ag) \<and> X + k \<le> d
                  \<and> s = reviewDraft t k))))"

definition directedOk :: "planning_run \<Rightarrow> agenda \<Rightarrow> int \<Rightarrow> session_draft \<Rightarrow> bool" where
  "directedOk e ag d s = (slotOk e ag d \<and> (\<exists>subj n gi g. s = directedDraft subj n gi g))"

definition mockOk :: "planning_run \<Rightarrow> agenda \<Rightarrow> int \<Rightarrow> session_draft \<Rightarrow> bool" where
  "mockOk e ag d s =
     (directedOk e ag d s \<or> (slotOk e ag d \<and> (s = basicCompleteDraft \<or> s = finalCompleteDraft)))"

definition placementOk ::
  "planning_run \<Rightarrow> topic list \<Rightarrow> topic list \<Rightarrow> agenda \<Rightarrow> int \<Rightarrow> session_draft \<Rightarrow> bool" where
  "placementOk e cs ts ag d s =
     (completedReviewOk e cs ag d s \<or> newTopicOk e ts ag d s \<or> mockOk e ag d s)"




text \<open>A store whose only topic was completed on day 0.\<close>

definition doneTopic :: topic where
  "doneTopic =
     \<lparr>topic_id = 2, description = ''t2'', status = Concluido, completion_date = Some 0,
      subject_name = ''s1'', priority = 1\<rparr>"

definition doneTopicStore :: store where
  "doneTopicStore = \<lparr>plan = Some weekPlan, topics = [doneTopic], sessions = [], next_session_id = 1\<rparr>"

text \<open>
  The sessions of the basic full mock are those with its description text; no other
  call site writes that text.
\<close>

abbreviation (input) isBasic :: "agenda_session \<Rightarrow> bool" where
  "isBasic \<equiv> (\<lambda>s. topicDescription s = SimuladoCompletoGeralDescription)"

text \<open>
  Stores with overdue pending sessions: one session and one hour on every day, Sunday
  included; six sessions under the hours of \<open>weekHours\<close>.
\<close>

definition allDayHours :: hours_map where
  "allDayHours = [(0, 1), (1, 1), (2, 1), (3, 1), (4, 1), (5, 1), (6, 1)]"

definition overdueRow :: "nat \<Rightarrow> int \<Rightarrow> study_session" where
  "overdueRow i d =
     \<lparr>topicId = Some i, subjectName = SubjectName ''s1'', topicDescription = TopicDescription ''t'',
      sessionType = NovoTopico, session_date = d, session_id = i, session_status = Pendente\<rparr>"

definition sundayStore :: store where
  "sundayStore =
     \<lparr>plan = Some \<lparr>exam_date = 12, has_essay = False, session_duration_minutes = Some 60,
                   study_hours_per_day = allDayHours, postponement_count = 0\<rparr>,
      topics = [], sessions = [overdueRow 1 9], next_session_id = 2\<rparr>"

definition sixOverdueStore :: store where
  "sixOverdueStore =
     \<lparr>plan = Some weekPlan, topics = [],
      sessions = [overdueRow 1 1, overdueRow 2 1, overdueRow 3 1, overdueRow 4 2, overdueRow 5 2,
                  overdueRow 6 3],
      next_session_id = 7\<rparr>"

text \<open>
  The count that the preview reads from its cache, \<^verbatim>\<open>sessionCountsCache.get(dateStr) || 0\<close>,
  and the count that the commit reads from the table.
\<close>

definition cacheCount :: "(int \<rightharpoonup> nat) \<Rightarrow> int \<Rightarrow> nat" where
  "cacheCount cache d = (case cache d of None \<Rightarrow> 0 | Some c \<Rightarrow> c)"

definition storedOn :: "study_session list \<Rightarrow> int \<Rightarrow> nat" where
  "storedOn rows d = length (filter (\<lambda>s. session_date s = d) rows)"

section \<open>Properties\<close>

subsection \<open>Availability index\<close>

lemma getAvailableDates_step:
  "getAvailableDates e s n w =
     (if s \<le> n
      then (if isAvailable e w s then [dateInfoOf e s] else []) @ getAvailableDates e (s + 1) n w
      else [])"
  by (subst getAvailableDates.simps) (simp add: Let_def isAvailable_def dateInfoOf_def)

lemma getAvailableDates_upto:
  "getAvailableDates e s n w = map (dateInfoOf e) (filter (isAvailable e w) [s..n])"
proof (induction e s n w rule: getAvailableDates.induct)
  case (1 e s n w)
  show ?case
  proof (cases "s \<le> n")
    case True
    then have u: "[s..n] = s # [s + 1..n]"
      by (simp add: upto_rec1)
    have ih: "getAvailableDates e (s + 1) n w
                = map (dateInfoOf e) (filter (isAvailable e w) [s + 1..n])"
      using 1 [OF True refl refl] .
    show ?thesis
      by (subst getAvailableDates_step) (simp add: True u ih)
  next
    case False
    then show ?thesis
      by (subst getAvailableDates_step) simp
  qed
qed




subsection \<open>The early exits of generate\<close>

lemma generate_refuses_iff:
  assumes "plan st = Some p"
  shows "fst (generate st req now rnd) = NoStudyHours
           \<longleftrightarrow> totalWeeklyHours (req_study_hours_per_day req) = 0"
  using assms by (simp add: generate_def Let_def)

lemma generate_refusal_keeps_store:
  assumes "fst (generate st req now rnd) = NoStudyHours"
  shows "snd (generate st req now rnd) = st"
  using assms by (simp add: generate_def Let_def split: option.splits if_splits)

lemma fold_parseInt10: "fold (\<lambda>v sum. sum + parseInt10 v) vs a = a + sum_list (map parseInt10 vs)"
  by (induction vs arbitrary: a) simp_all

lemma sum_list_parseInt10_integral:
  assumes "\<forall>v \<in> set vs. \<exists>n. v = of_int n"
  shows "of_int (sum_list (map parseInt10 vs)) = sum_list vs"
  using assms by (induction vs) (auto simp: parseInt10_def)

text \<open>
  For whole numbers of hours the sum that the handler tests is the sum of the hours.
\<close>

lemma totalWeeklyHours_integral:
  assumes "\<forall>v \<in> set (map snd h). \<exists>n. v = of_int n"
  shows "of_int (totalWeeklyHours h) = sum_list (map snd h)"
  using sum_list_parseInt10_integral [OF assms]
  by (simp add: totalWeeklyHours_def fold_parseInt10)

text \<open>
  Claim C3 says that generate answers with the configuration error exactly when the
  weekly hours, which may be fractional, sum to zero. The handler sums
  \<^verbatim>\<open>parseInt(h, 10) || 0\<close>: with half an hour on each of the seven days the hours sum
  to 7/2, and the handler still answers with the configuration error (leaving the
  store as it was).
\<close>

theorem generate_refuses_half_hours:
  "sum_list (map snd halfHours) = 7 / 2
   \<and> generate oneTopicStore halfHourRequest 4 (\<lambda>i. 0) = (NoStudyHours, oneTopicStore)"
  by code_simp

text \<open>
  Claim C10. When the plan exists and passes the hours check but has no topic, generate
  deletes every stored session of the plan, commits, and answers with the
  no-topics message: the store it leaves has no session.
\<close>

theorem generate_zero_topics:
  assumes "plan st = Some p"
    and "totalWeeklyHours (req_study_hours_per_day req) \<noteq> 0"
    and "topics st = []"
  shows "generate st req now rnd = (NoTopicsFound, st\<lparr>sessions := []\<rparr>)"
  using assms by (simp add: generate_def allTopicsQuery_def)

theorem generate_zero_topics_witness:
  "plan emptyTopicStore = Some weekPlan
   \<and> totalWeeklyHours (req_study_hours_per_day weekRequest) \<noteq> 0
   \<and> topics emptyTopicStore = []
   \<and> sessions emptyTopicStore = [storedEssay]
   \<and> generate emptyTopicStore weekRequest 4 (\<lambda>i. 0) = (NoTopicsFound, emptyTopicStore\<lparr>sessions := []\<rparr>)"
proof -
  have a: "plan emptyTopicStore = Some weekPlan" by (simp add: emptyTopicStore_def)
  have b: "totalWeeklyHours (req_study_hours_per_day weekRequest) \<noteq> 0" by code_simp
  have c: "topics emptyTopicStore = []" by (simp add: emptyTopicStore_def)
  have d: "sessions emptyTopicStore = [storedEssay]" by (simp add: emptyTopicStore_def)
  from a b c d generate_zero_topics [OF a b c] show ?thesis by blast
qed

subsection \<open>Capacity of a date\<close>

text \<open>
  Claim C1 bounds the sessions of every date by \<open>floor (hours * 60 / sessionDuration)\<close>,
  essay sessions included. The essay loop adds its session to every Sunday with more
  than zero hours without looking at \<open>maxSessions\<close>: with one hour on Sunday and
  sessions of 90 minutes, Sunday day 10 receives one session and its bound is 0.
\<close>

theorem generate_essay_over_capacity:
  "length (filter (\<lambda>s. session_date s = 10)
            (sessions (snd (generate oneTopicStore shortSundayRequest 4 (\<lambda>i. 0))))) = 1
   \<and> \<lfloor>hoursOf shortSundayHours (getDay 10) * 60 / 90\<rfloor> = 0"
  by code_simp

subsection \<open>Slot search\<close>

lemma find_upto_Some:
  "find P [s..n] = Some d \<longleftrightarrow> s \<le> d \<and> d \<le> n \<and> P d \<and> (\<forall>d'. s \<le> d' \<and> d' < d \<longrightarrow> \<not> P d')"
proof (induction s n rule: upto.induct)
  case (1 i j)
  show ?case
  proof (cases "i \<le> j")
    case True
    then have u: "[i..j] = i # [i + 1..j]"
      by (simp add: upto_rec1)
    show ?thesis
    proof (cases "P i")
      case True
      then show ?thesis
        using \<open>i \<le> j\<close> by (auto simp: u)
    next
      case False
      have "(\<forall>d'. i \<le> d' \<and> d' < d \<longrightarrow> \<not> P d') \<longleftrightarrow> (\<forall>d'. i + 1 \<le> d' \<and> d' < d \<longrightarrow> \<not> P d')"
        using False by (metis add1_zle_eq order_le_less)
      moreover have "i \<le> d \<and> P d \<longleftrightarrow> i + 1 \<le> d \<and> P d"
        using False by (metis add1_zle_eq order_le_less)
      ultimately show ?thesis
        using 1 [OF True] False by (auto simp: u)
    qed
  next
    case False
    then show ?thesis by auto
  qed
qed

lemma find_upto_None:
  "find P [s..n] = None \<longleftrightarrow> (\<forall>d. s \<le> d \<and> d \<le> n \<longrightarrow> \<not> P d)"
  by (auto simp: find_None_iff)

lemma find_map: "find P (map f xs) = map_option f (find (P \<circ> f) xs)"
  by (induction xs) auto

lemma find_filter: "find P (filter Q xs) = find (\<lambda>x. Q x \<and> P x) xs"
  by (induction xs) auto

lemma hasRoom_dateInfoOf: "hasRoom ag (dateInfoOf e d) = room e ag d"
  by (simp add: hasRoom_def room_def capacity_def dateInfoOf_def)

lemma date_dateInfoOf: "map_option date (map_option (dateInfoOf e) x) = x"
  by (cases x) (simp_all add: dateInfoOf_def)

lemma findNextAvailableSlot_find:
  "findNextAvailableSlot e ag s w = find (\<lambda>d. isAvailable e w d \<and> room e ag d) [s..examDate e]"
  by (simp add: findNextAvailableSlot_def getAvailableDates_upto find_map find_filter o_def
      hasRoom_dateInfoOf date_dateInfoOf)

lemma dayOfWeek_dateInfoOf: "dayOfWeek (dateInfoOf e d) = getDay d"
  by (simp add: dateInfoOf_def)

lemma getNextSaturdayForReview_find:
  "getNextSaturdayForReview e ag s
     = find (\<lambda>d. isAvailable e False d \<and> getDay d = 6 \<and> room e ag d) [s..examDate e]"
  by (simp add: getNextSaturdayForReview_def getAvailableDates_upto find_map find_filter o_def
      hasRoom_dateInfoOf date_dateInfoOf filter_map dayOfWeek_dateInfoOf conj_assoc)

lemma findNextAvailableSlot_Some:
  "findNextAvailableSlot e ag s w = Some d \<longleftrightarrow>
     s \<le> d \<and> d \<le> examDate e \<and> isAvailable e w d \<and> room e ag d
     \<and> (\<forall>d'. s \<le> d' \<and> d' < d \<longrightarrow> \<not> (isAvailable e w d' \<and> room e ag d'))"
  by (simp add: findNextAvailableSlot_find find_upto_Some)


lemma getNextSaturdayForReview_Some:
  "getNextSaturdayForReview e ag s = Some d \<longleftrightarrow>
     s \<le> d \<and> d \<le> examDate e \<and> isAvailable e False d \<and> getDay d = 6 \<and> room e ag d
     \<and> (\<forall>d'. s \<le> d' \<and> d' < d \<longrightarrow> \<not> (isAvailable e False d' \<and> getDay d' = 6 \<and> room e ag d'))"
  by (simp add: getNextSaturdayForReview_find find_upto_Some)

lemma getNextSaturdayForReview_None:
  "getNextSaturdayForReview e ag s = None \<longleftrightarrow>
     (\<forall>d. s \<le> d \<and> d \<le> examDate e \<longrightarrow> \<not> (isAvailable e False d \<and> getDay d = 6 \<and> room e ag d))"
  by (simp add: getNextSaturdayForReview_find find_upto_None)

subsection \<open>Adding to the agenda\<close>

lemma sessionsOn_add:
  "sessionsOn (addSessionToAgenda d s ag) d'
     = (if d' = d then Suc (sessionsOn ag d) else sessionsOn ag d')"
  by (induction ag) (auto simp: sessionsOn_def)

lemma mset_sessionsToCreate_add:
  "mset (sessionsToCreate (addSessionToAgenda d s ag))
     = add_mset (withDate s d) (mset (sessionsToCreate ag))"
  by (induction ag) (auto simp: sessionsToCreate_def)

lemma set_sessionsToCreate_add:
  "set (sessionsToCreate (addSessionToAgenda d s ag))
     = insert (withDate s d) (set (sessionsToCreate ag))"
  using mset_sessionsToCreate_add [of d s ag, THEN arg_cong, of set_mset] by simp

lemma countOn_mset:
  "countOn ag d = size (filter_mset (\<lambda>s. session_date s = d) (mset (sessionsToCreate ag)))"
  by (simp add: countOn_def flip: mset_filter)

lemma session_date_withDate [simp]: "session_date (withDate s d) = d"
  and sessionType_withDate [simp]: "sessionType (withDate s d) = sessionType s"
  and topicId_withDate [simp]: "topicId (withDate s d) = topicId s"
  and topicDescription_withDate [simp]: "topicDescription (withDate s d) = topicDescription s"
  by (simp_all add: withDate_def)

lemma countOn_add:
  "countOn (addSessionToAgenda d s ag) d'
     = (if d' = d then Suc (countOn ag d) else countOn ag d')"
  by (simp add: countOn_mset mset_sessionsToCreate_add)

subsection \<open>The agenda grows by valid placements\<close>

lemma placed_trans:
  assumes "placed ok ag2 ag3" and "placed ok ag1 ag2"
  shows "placed ok ag1 ag3"
  using assms by (induction rule: placed.induct) (auto intro: placed.intros)

lemma placed_weaken:
  assumes "placed ok ag ag'" and "\<And>a d s. ok a d s \<Longrightarrow> ok' a d s"
  shows "placed ok' ag ag'"
  using assms by (induction rule: placed.induct) (auto intro: placed.intros)

lemma placed_fold:
  assumes "\<And>x a. x \<in> set xs \<Longrightarrow> placed ok ag0 a \<Longrightarrow> placed ok ag0 (f x a)" and "placed ok ag0 ag"
  shows "placed ok ag0 (fold f xs ag)"
  using assms by (induction xs arbitrary: ag) auto

lemma placed_sessions_mono:
  assumes "placed ok ag ag'"
  shows "set (sessionsToCreate ag) \<subseteq> set (sessionsToCreate ag')"
  using assms by (induction rule: placed.induct) (auto simp: set_sessionsToCreate_add)


lemma placed_filter_unchanged:
  assumes "placed ok ag ag'" and "\<And>a d s. ok a d s \<Longrightarrow> \<not> P (withDate s d)"
  shows "filter_mset P (mset (sessionsToCreate ag')) = filter_mset P (mset (sessionsToCreate ag))"
  using assms by (induction rule: placed.induct) (auto simp: mset_sessionsToCreate_add)

lemma isAvailable_weekdayOnly: "isAvailable e w d \<Longrightarrow> isAvailable e False d"
  by (simp add: isAvailable_def)

lemma findNextAvailableSlot_slotOk:
  assumes "findNextAvailableSlot e ag s w = Some d" and "today e \<le> s"
  shows "slotOk e ag d" and "s \<le> d" and "w \<Longrightarrow> getDay d \<noteq> 0 \<and> getDay d \<noteq> 6"
  using assms by (auto simp: findNextAvailableSlot_Some slotOk_def isAvailable_def)

lemma getNextSaturdayForReview_slotOk:
  assumes "getNextSaturdayForReview e ag s = Some d" and "today e \<le> s"
  shows "slotOk e ag d" and "s \<le> d" and "getDay d = 6"
  using assms by (auto simp: getNextSaturdayForReview_Some slotOk_def)

paragraph \<open>Reviews of completed topics\<close>

lemma placed_completedReview:
  assumes "placed (completedReviewOk e cs) ag0 ag" and "t \<in> set cs"
    and "completion_date t = Some X" and "k \<in> {7, 14, 28}"
  shows "placed (completedReviewOk e cs) ag0 (completedReview e t X k ag)"
proof (cases "today e \<le> X + k \<and> X + k \<le> examDate e")
  case False
  with assms(1) show ?thesis
    by (auto simp: completedReview_def Let_def)
next
  case True
  show ?thesis
  proof (cases "getNextSaturdayForReview e ag (X + k)")
    case None
    with assms(1) show ?thesis
      by (simp add: completedReview_def Let_def)
  next
    case (Some d)
    from True have "today e \<le> X + k" by simp
    note f = getNextSaturdayForReview_slotOk [OF Some this]
    have "completedReviewOk e cs ag d (reviewDraft t k)"
      unfolding completedReviewOk_def using f assms(2,3,4) True by blast
    with assms(1) have "placed (completedReviewOk e cs) ag0 (addSessionToAgenda d (reviewDraft t k) ag)"
      by (rule placed_add)
    with True Some show ?thesis
      by (simp add: completedReview_def Let_def)
  qed
qed

lemma placed_completedTopicReviews:
  assumes "placed (completedReviewOk e cs) ag0 ag" and "t \<in> set cs"
  shows "placed (completedReviewOk e cs) ag0 (completedTopicReviews e t ag)"
proof (cases "completion_date t")
  case None
  with assms show ?thesis by (simp add: completedTopicReviews_def)
next
  case (Some X)
  have "placed (completedReviewOk e cs) ag0 (fold (completedReview e t X) [7, 14, 28] ag)"
    by (rule placed_fold [OF _ assms(1)]) (auto intro: placed_completedReview assms(2) Some)
  with Some show ?thesis by (simp add: completedTopicReviews_def)
qed

lemma placed_completedReviews_gen:
  assumes "placed (completedReviewOk e cs) ag0 ag" and "set ts \<subseteq> set cs"
  shows "placed (completedReviewOk e cs) ag0 (completedReviews e ts ag)"
  unfolding completedReviews_def
  using assms(2) by (intro placed_fold [OF _ assms(1)] placed_completedTopicReviews) auto

lemma placed_completedReviews:
  "placed (completedReviewOk e cs) ag (completedReviews e cs ag)"
  by (rule placed_completedReviews_gen [OF placed_refl]) simp

paragraph \<open>New topics and their reviews\<close>

lemma placed_newTopicReview:
  assumes "placed (newTopicOk e ts0) ag0 ag" and "t \<in> set ts0" and "today e \<le> studyDay"
    and "k \<in> {7, 14, 28}" and "withDate (newTopicDraft t) studyDay \<in> set (sessionsToCreate ag)"
  shows "placed (newTopicOk e ts0) ag0 (newTopicReview e t studyDay k ag)"
proof (cases "getNextSaturdayForReview e ag (studyDay + k)")
  case None
  with assms(1) show ?thesis
    by (simp add: newTopicReview_def Let_def)
next
  case (Some d)
  from assms(3,4) have "today e \<le> studyDay + k" by auto
  note f = getNextSaturdayForReview_slotOk [OF Some this]
  have "newTopicOk e ts0 ag d (reviewDraft t k)"
    unfolding newTopicOk_def using f assms(2,4,5) by blast
  with assms(1) have "placed (newTopicOk e ts0) ag0 (addSessionToAgenda d (reviewDraft t k) ag)"
    by (rule placed_add)
  with Some assms(1) show ?thesis
    by (simp add: newTopicReview_def Let_def)
qed

lemma newTopicReview_keeps:
  "set (sessionsToCreate ag) \<subseteq> set (sessionsToCreate (newTopicReview e t studyDay k ag))"
  by (auto simp: newTopicReview_def Let_def set_sessionsToCreate_add split: option.splits)

lemma placed_newTopicReviews:
  assumes "placed (newTopicOk e ts0) ag0 ag" and "t \<in> set ts0" and "today e \<le> studyDay"
    and "withDate (newTopicDraft t) studyDay \<in> set (sessionsToCreate ag)"
  shows "placed (newTopicOk e ts0) ag0 (fold (newTopicReview e t studyDay) [7, 14, 28] ag)"
proof -
  let ?r = "newTopicReview e t studyDay"
  have 1: "placed (newTopicOk e ts0) ag0 (?r 7 ag)"
    by (rule placed_newTopicReview [OF assms(1,2,3) _ assms(4)]) simp
  have m1: "withDate (newTopicDraft t) studyDay \<in> set (sessionsToCreate (?r 7 ag))"
    using assms(4) newTopicReview_keeps by blast
  have 2: "placed (newTopicOk e ts0) ag0 (?r 14 (?r 7 ag))"
    by (rule placed_newTopicReview [OF 1 assms(2,3) _ m1]) simp
  have m2: "withDate (newTopicDraft t) studyDay \<in> set (sessionsToCreate (?r 14 (?r 7 ag)))"
    using m1 newTopicReview_keeps by blast
  have "placed (newTopicOk e ts0) ag0 (?r 28 (?r 14 (?r 7 ag)))"
    by (rule placed_newTopicReview [OF 2 assms(2,3) _ m2]) simp
  then show ?thesis by simp
qed

lemma placed_newTopicLoop:
  assumes "placed (newTopicOk e ts0) ag0 ag" and "today e \<le> cur" and "set ts \<subseteq> set ts0"
  shows "placed (newTopicOk e ts0) ag0 (fst (newTopicLoop e ts cur l ag))"
  using assms
proof (induction ts arbitrary: cur l ag)
  case Nil
  then show ?case by simp
next
  case (Cons t ts)
  show ?case
  proof (cases "findNextAvailableSlot e ag cur True")
    case None
    with Cons.prems show ?thesis by simp
  next
    case (Some d)
    note f = findNextAvailableSlot_slotOk [OF Some Cons.prems(2)]
    from f(2) Cons.prems(2) have d: "today e \<le> d" by simp
    from Cons.prems(3) have t: "t \<in> set ts0" by simp
    have "newTopicOk e ts0 ag d (newTopicDraft t)"
      unfolding newTopicOk_def using f t by blast
    with Cons.prems(1) have p: "placed (newTopicOk e ts0) ag0 (addSessionToAgenda d (newTopicDraft t) ag)"
      by (rule placed_add)
    have "placed (newTopicOk e ts0) ag0
            (fold (newTopicReview e t d) [7, 14, 28] (addSessionToAgenda d (newTopicDraft t) ag))"
      by (rule placed_newTopicReviews [OF p t d]) (simp add: set_sessionsToCreate_add)
    from Cons.IH [OF this d] Cons.prems(3) Some show ?thesis
      by simp
  qed
qed

lemma newTopicLoop_last:
  assumes "today e \<le> cur" and "\<And>d. l = Some d \<Longrightarrow> today e \<le> d"
    and "snd (newTopicLoop e ts cur l ag) = Some d"
  shows "today e \<le> d"
  using assms
proof (induction ts arbitrary: cur l ag)
  case Nil
  then show ?case by simp
next
  case (Cons t ts)
  show ?case
  proof (cases "findNextAvailableSlot e ag cur True")
    case None
    with Cons.prems show ?thesis by simp
  next
    case (Some x)
    then have x: "today e \<le> x"
      using Cons.prems(1) findNextAvailableSlot_slotOk(2) by fastforce
    show ?thesis
      using Cons.IH [of x "Some x"] x Cons.prems(3) Some by simp
  qed
qed

paragraph \<open>Mock exams\<close>

lemma placed_directedGroups:
  assumes "placed (directedOk e) ag0 (snd st)" and "today e \<le> fst st"
  shows "placed (directedOk e) ag0 (snd (directedGroups e subj n gi gs st))
         \<and> today e \<le> fst (directedGroups e subj n gi gs st)"
  using assms
proof (induction gs arbitrary: gi st)
  case Nil
  then show ?case by (cases st) simp
next
  case (Cons g gs)
  obtain cur ag where st: "st = (cur, ag)"
    by (cases st)
  show ?case
  proof (cases "findNextAvailableSlot e ag cur False")
    case None
    with Cons.prems st show ?thesis by simp
  next
    case (Some d)
    from Cons.prems(2) st have c: "today e \<le> cur" by simp
    note f = findNextAvailableSlot_slotOk [OF Some c]
    from f(2) c have d: "today e \<le> d + 3" by simp
    have "directedOk e ag d (directedDraft subj n gi g)"
      unfolding directedOk_def using f(1) by blast
    with Cons.prems(1) st
    have r: "placed (directedOk e) ag0 (addSessionToAgenda d (directedDraft subj n gi g) ag)"
      by (auto intro: placed_add)
    show ?thesis
      using Cons.IH [of "(d + 3, addSessionToAgenda d (directedDraft subj n gi g) ag)" "gi + 1"]
        r d Some st by simp
  qed
qed

lemma placed_directedFold:
  assumes "placed (directedOk e) ag0 (snd st)" and "today e \<le> fst st"
  shows "placed (directedOk e) ag0 (snd (fold (directedSubject e) xs st))
         \<and> today e \<le> fst (fold (directedSubject e) xs st)"
  using assms
proof (induction xs arbitrary: st)
  case Nil
  then show ?case by simp
next
  case (Cons x xs)
  obtain subj completed n where x: "x = (subj, completed, n)"
    by (cases x)
  have "placed (directedOk e) ag0 (snd (directedSubject e x st))
        \<and> today e \<le> fst (directedSubject e x st)"
    unfolding x directedSubject_def Let_def prod.case
    using Cons.prems by (rule placed_directedGroups)
  then show ?case
    using Cons.IH by simp
qed

lemma placed_directedPhase:
  assumes "today e \<le> m"
  shows "placed (directedOk e) ag (directedPhase e allTopics m ag)"
  unfolding directedPhase_def
  using placed_directedFold [of e ag "(m, ag)"] assms by (simp add: placed_refl)

lemma placed_recurringLoop:
  assumes "placed (\<lambda>a d s. slotOk e a d \<and> s = finalCompleteDraft) ag0 ag" and "today e \<le> cur"
  shows "placed (\<lambda>a d s. slotOk e a d \<and> s = finalCompleteDraft) ag0 (recurringLoop e c cur ag)"
  using assms
proof (induction e c cur ag rule: recurringLoop.induct)
  case (1 e c cur ag)
  show ?case
  proof (cases "c < 20")
    case False
    then show ?thesis
      using 1 by (subst recurringLoop.simps) simp
  next
    case True
    show ?thesis
    proof (cases "findNextAvailableSlot e ag cur False")
      case None
      then show ?thesis
        using 1 True by (subst recurringLoop.simps) simp
    next
      case (Some d)
      note f = findNextAvailableSlot_slotOk [OF Some "1.prems"(2)]
      from f(2) "1.prems"(2) have d: "today e \<le> d + 3" by simp
      have r: "placed (\<lambda>a d s. slotOk e a d \<and> s = finalCompleteDraft) ag0
                 (addSessionToAgenda d finalCompleteDraft ag)"
        using "1.prems"(1) f(1) by (auto intro: placed_add)
      show ?thesis
        using "1.IH" [OF True Some r d] True Some
        by (subst recurringLoop.simps) simp
    qed
  qed
qed

lemma placed_basicCompletePhase:
  assumes "today e \<le> m"
  shows "placed (\<lambda>a d s. slotOk e a d \<and> s = basicCompleteDraft) ag (basicCompletePhase e m ag)"
proof (cases "findNextAvailableSlot e ag (m + 7) False")
  case None
  then show ?thesis
    by (simp add: basicCompletePhase_def placed_refl)
next
  case (Some d)
  from assms have "today e \<le> m + 7" by simp
  note f = findNextAvailableSlot_slotOk [OF Some this]
  have "placed (\<lambda>a d s. slotOk e a d \<and> s = basicCompleteDraft) ag
          (addSessionToAgenda d basicCompleteDraft ag)"
    using f(1) by (auto intro: placed_add placed_refl)
  with Some show ?thesis
    by (simp add: basicCompletePhase_def)
qed

lemma placed_simulationPhase:
  assumes "today e \<le> m"
  shows "placed (mockOk e) ag (simulationPhase e pend cs allTopics m ag)"
proof (cases "simulationGate pend cs allTopics")
  case False
  then show ?thesis
    by (simp add: simulationPhase_def placed_refl)
next
  case True
  let ?d = "directedPhase e allTopics m ag"
  let ?b = "basicCompletePhase e m ?d"
  have 1: "placed (mockOk e) ag ?d"
    by (rule placed_weaken [OF placed_directedPhase [OF assms]]) (simp add: mockOk_def)
  have 2: "placed (mockOk e) ?d ?b"
    by (rule placed_weaken [OF placed_basicCompletePhase [OF assms]]) (simp add: mockOk_def)
  have "today e \<le> m + 5"
    using assms by simp
  then have 3: "placed (mockOk e) ?b (recurringLoop e 0 (m + 5) ?b)"
    by (intro placed_weaken [OF placed_recurringLoop [OF placed_refl]]) (simp_all add: mockOk_def)
  from placed_trans [OF 3 placed_trans [OF 2 1]] True show ?thesis
    by (simp add: simulationPhase_def Let_def)
qed

paragraph \<open>The whole run\<close>

lemma uniquePendingTopicsInOrder_Nil [simp]: "uniquePendingTopicsInOrder rnd [] = []"
  by (simp add: uniquePendingTopicsInOrder_def weightedTopics_def shuffle_def uniqueById_def)

text \<open>The run as its two courses: with pending topics, and without.\<close>

lemma buildAgenda_cases:
  "buildAgenda e hasEssay allTopics cs rnd =
     (let ag2 = completedReviews e cs (essayAgenda e hasEssay);
          pend = filter (\<lambda>t. status t \<noteq> Concluido) allTopics
      in if pend = []
         then simulationPhase e [] cs allTopics (today e + 1) ag2
         else fst (newTopicLoop e (uniquePendingTopicsInOrder rnd pend) (today e) None ag2))"
  by (simp add: buildAgenda_def Let_def essayAgenda_def case_prod_beta)

lemma placed_buildAgenda:
  "placed
     (placementOk e cs
        (uniquePendingTopicsInOrder rnd (filter (\<lambda>t. status t \<noteq> Concluido) allTopics)))
     (essayAgenda e hasEssay) (buildAgenda e hasEssay allTopics cs rnd)"
proof -
  define ts where "ts = uniquePendingTopicsInOrder rnd (filter (\<lambda>t. status t \<noteq> Concluido) allTopics)"
  define ag2 where "ag2 = completedReviews e cs (essayAgenda e hasEssay)"
  have 1: "placed (placementOk e cs ts) (essayAgenda e hasEssay) ag2"
    unfolding ag2_def
    by (rule placed_weaken [OF placed_completedReviews]) (simp add: placementOk_def)
  have 2: "placed (placementOk e cs ts) ag2 (simulationPhase e [] cs allTopics (today e + 1) ag2)"
    by (rule placed_weaken [OF placed_simulationPhase]) (simp_all add: placementOk_def)
  have "placed (newTopicOk e ts) ag2 (fst (newTopicLoop e ts (today e) None ag2))"
    by (rule placed_newTopicLoop [OF placed_refl]) simp_all
  then have 3: "placed (placementOk e cs ts) ag2 (fst (newTopicLoop e ts (today e) None ag2))"
    by (rule placed_weaken) (simp add: placementOk_def)
  show ?thesis
    unfolding buildAgenda_cases Let_def ts_def [symmetric] ag2_def [symmetric]
    using placed_trans [OF 2 1] placed_trans [OF 3 1] by simp
qed

subsection \<open>Dates of the generated sessions\<close>

lemma placementOk_slotOk: "placementOk e cs ts a d s \<Longrightarrow> slotOk e a d"
  by (auto simp: placementOk_def completedReviewOk_def newTopicOk_def mockOk_def directedOk_def)


lemma set_sessionsToCreate_fold_add:
  "set (sessionsToCreate (fold (\<lambda>di. addSessionToAgenda (date di) x) dis ag))
     = set (sessionsToCreate ag) \<union> (\<lambda>di. withDate x (date di)) ` set dis"
  by (induction dis arbitrary: ag) (auto simp: set_sessionsToCreate_add)

lemma sessionsToCreate_Nil [simp]: "sessionsToCreate [] = []"
  by (simp add: sessionsToCreate_def)

lemma essayAgenda_sessions:
  assumes "s \<in> set (sessionsToCreate (essayAgenda e hasEssay))"
  shows "hasEssay \<and> s = withDate essayDraft (session_date s)
         \<and> today e \<le> session_date s \<and> session_date s \<le> examDate e
         \<and> getDay (session_date s) = 0 \<and> isAvailable e False (session_date s)"
  using assms
  by (auto simp: essayAgenda_def essayPhase_def set_sessionsToCreate_fold_add
      getAvailableDates_upto dateInfoOf_def split: if_splits)



text \<open>What the full path of generate leaves in the store.\<close>

lemma generate_sessions:
  assumes "plan st = Some p" and "totalWeeklyHours (req_study_hours_per_day req) \<noteq> 0"
  shows "sessions (snd (generate st req now rnd))
           = (if topics st = [] then []
              else insertSessions (next_session_id st)
                     (sessionsToCreate
                        (buildAgenda (planningRunOf p req now) (has_essay p)
                           (allTopicsQuery (topics st)) (completedTopicsQuery (topics st)) rnd)))"
proof -
  have "allTopicsQuery (topics st) = [] \<longleftrightarrow> topics st = []"
    by (simp add: allTopicsQuery_def flip: length_0_conv)
  then show ?thesis
    using assms by (simp add: generate_def Let_def)
qed



subsection \<open>Weighted shuffle and de-duplication\<close>




lemma set_mapSet: "set (mapSet k v m) \<subseteq> insert (k, v) (set m)"
  by (induction m) (auto split: if_splits)





lemma fold_mapSet_entries:
  assumes "\<forall>(k, v) \<in> set m0. f v = k \<and> v \<in> A" and "set ts \<subseteq> A"
  shows "\<forall>(k, v) \<in> set (fold (\<lambda>item m. mapSet (f item) item m) ts m0). f v = k \<and> v \<in> A"
  using assms
proof (induction ts arbitrary: m0)
  case Nil
  then show ?case by simp
next
  case (Cons t ts)
  have "\<forall>(k, v) \<in> set (mapSet (f t) t m0). f v = k \<and> v \<in> A"
    using Cons.prems set_mapSet [of "f t" t m0] by auto
  then show ?case
    using Cons.IH [of "mapSet (f t) t m0"] Cons.prems(2) by simp
qed


lemma uniqueById_subset: "set (uniqueById ts) \<subseteq> set ts"
proof -
  let ?m = "fold (\<lambda>item m. mapSet (topic_id item) item m) ts []"
  have "\<forall>(k, v) \<in> set ?m. topic_id v = k \<and> v \<in> set ts"
    by (rule fold_mapSet_entries) simp_all
  then show ?thesis
    by (auto simp: uniqueById_def)
qed





subsection \<open>New-topic sessions per topic\<close>





lemma topicId_drafts [simp]:
  "topicId (reviewDraft t k) = Some (topic_id t)"
  "topicId (newTopicDraft t) = Some (topic_id t)"
  "topicId essayDraft = None"
  "topicId (directedDraft subj n gi g) = None"
  "topicId basicCompleteDraft = None"
  "topicId finalCompleteDraft = None"
  by (simp_all add: reviewDraft_def newTopicDraft_def essayDraft_def directedDraft_def
      basicCompleteDraft_def finalCompleteDraft_def)












lemma agenda_counted_add:
  assumes "\<forall>d. sessionsOn ag d = countOn ag d"
  shows "\<forall>d'. sessionsOn (addSessionToAgenda d s ag) d' = countOn (addSessionToAgenda d s ag) d'"
  using assms by (simp add: sessionsOn_add countOn_add)

lemma agenda_counted_placed:
  assumes "placed ok ag ag'" and "\<forall>d. sessionsOn ag d = countOn ag d"
  shows "\<forall>d. sessionsOn ag' d = countOn ag' d"
  using assms by (induction rule: placed.induct) (simp_all add: sessionsOn_add countOn_add)

lemma agenda_counted_fold:
  assumes "\<forall>d. sessionsOn ag d = countOn ag d"
  shows "\<forall>d. sessionsOn (fold (\<lambda>di. addSessionToAgenda (date di) x) dis ag) d
              = countOn (fold (\<lambda>di. addSessionToAgenda (date di) x) dis ag) d"
  using assms by (induction dis arbitrary: ag) (simp_all add: sessionsOn_add countOn_add)

lemma agenda_counted_essayAgenda:
  "\<forall>d. sessionsOn (essayAgenda e hasEssay) d = countOn (essayAgenda e hasEssay) d"
proof -
  have "\<forall>d. sessionsOn [] d = countOn [] d"
    by (simp add: sessionsOn_def countOn_def)
  then show ?thesis
    unfolding essayAgenda_def essayPhase_def by (auto intro: agenda_counted_fold [rule_format])
qed

lemma agenda_counted_buildAgenda:
  "sessionsOn (buildAgenda e hasEssay allTopics cs rnd) d
     = countOn (buildAgenda e hasEssay allTopics cs rnd) d"
  using agenda_counted_placed [OF placed_buildAgenda agenda_counted_essayAgenda] by blast


lemma insertSessions_filter_date:
  "length (filter (\<lambda>s. session_date s = d) (insertSessions n xs))
     = length (filter (\<lambda>s. session_date s = d) xs)"
  by (induction xs arbitrary: n) simp_all

lemma set_allTopicsQuery [simp]: "set (allTopicsQuery ts) = set ts"
  by (simp add: allTopicsQuery_def)



subsection \<open>Review cascade\<close>











subsection \<open>The basic full mock\<close>

lemma topicDescription_drafts [simp]:
  "topicDescription (reviewDraft t k) = TopicDescription (description t)"
  "topicDescription (newTopicDraft t) = TopicDescription (description t)"
  "topicDescription essayDraft = RedacaoDescription"
  "topicDescription (directedDraft subj n gi g)
     = SimuladoDirecionadoDescription subj (if n > 1 then Some (gi + 1) else None) g"
  "topicDescription basicCompleteDraft = SimuladoCompletoGeralDescription"
  "topicDescription finalCompleteDraft = SimuladoCompletoFinalDescription"
  by (simp_all add: reviewDraft_def newTopicDraft_def essayDraft_def directedDraft_def
      basicCompleteDraft_def finalCompleteDraft_def)

lemma basic_essayAgenda:
  "filter_mset isBasic (mset (sessionsToCreate (essayAgenda e hasEssay))) = {#}"
proof -
  have "\<forall>s \<in> set (sessionsToCreate (essayAgenda e hasEssay)). topicDescription s = RedacaoDescription"
    using essayAgenda_sessions by (metis topicDescription_withDate topicDescription_drafts(3))
  then show ?thesis
    by auto
qed

lemma basic_completedReviews:
  "filter_mset isBasic (mset (sessionsToCreate (completedReviews e cs ag)))
     = filter_mset isBasic (mset (sessionsToCreate ag))"
  by (rule placed_filter_unchanged [OF placed_completedReviews]) (auto simp: completedReviewOk_def)

lemma basic_directedPhase:
  assumes "today e \<le> m"
  shows "filter_mset isBasic (mset (sessionsToCreate (directedPhase e allTopics m ag)))
           = filter_mset isBasic (mset (sessionsToCreate ag))"
  by (rule placed_filter_unchanged [OF placed_directedPhase [OF assms]]) (auto simp: directedOk_def)

lemma basic_recurringLoop:
  assumes "today e \<le> cur"
  shows "filter_mset isBasic (mset (sessionsToCreate (recurringLoop e c cur ag)))
           = filter_mset isBasic (mset (sessionsToCreate ag))"
  by (rule placed_filter_unchanged [OF placed_recurringLoop [OF placed_refl assms]]) auto

lemma basic_basicCompletePhase:
  "filter_mset isBasic (mset (sessionsToCreate (basicCompletePhase e m ag)))
     = filter_mset isBasic (mset (sessionsToCreate ag))
       + (case findNextAvailableSlot e ag (m + 7) False of
            Some d \<Rightarrow> {#withDate basicCompleteDraft d#} | None \<Rightarrow> {#})"
  by (simp add: basicCompletePhase_def mset_sessionsToCreate_add split: option.splits)

lemma basic_simulationPhase:
  assumes "today e \<le> m"
  shows "filter_mset isBasic (mset (sessionsToCreate (simulationPhase e pend cs allTopics m ag)))
           = filter_mset isBasic (mset (sessionsToCreate ag))
             + (if simulationGate pend cs allTopics
                then (case findNextAvailableSlot e (directedPhase e allTopics m ag) (m + 7) False of
                        Some d \<Rightarrow> {#withDate basicCompleteDraft d#} | None \<Rightarrow> {#})
                else {#})"
proof -
  from assms have "today e \<le> m + 5" by simp
  then show ?thesis
    by (simp add: simulationPhase_def Let_def basic_recurringLoop basic_basicCompletePhase
        basic_directedPhase [OF assms])
qed

lemma filter_singleton_mset:
  assumes "filter_mset P (mset xs) = {#x#}"
  shows "filter P xs = [x]"
proof -
  from assms have "mset (filter P xs) = mset [x]"
    by simp
  then show ?thesis
    by (metis mset_single_iff_right)
qed

lemma filter_Nil_of_mset:
  assumes "filter_mset P (mset xs) = {#}"
  shows "filter P xs = []"
  using assms by (metis mset_filter mset_zero_iff)

lemma insertSessions_filter_description:
  "map session_date (filter (\<lambda>s. topicDescription s = D) (insertSessions n xs))
     = map session_date (filter (\<lambda>s. topicDescription s = D) xs)"
  by (induction xs arbitrary: n) simp_all

lemma length_allTopicsQuery [simp]: "length (allTopicsQuery ts) = length ts"
  by (simp add: allTopicsQuery_def)

lemma buildAgenda_basic:
  assumes "filter (\<lambda>t. status t \<noteq> Concluido) allTopics = []"
  shows "map session_date (filter isBasic (sessionsToCreate (buildAgenda e hasEssay allTopics cs rnd)))
           = (if progressPercentage cs allTopics \<ge> 95 / 100
              then (case findNextAvailableSlot e
                           (directedPhase e allTopics (today e + 1)
                              (completedReviews e cs (essayAgenda e hasEssay)))
                           (today e + 1 + 7) False of
                      Some d \<Rightarrow> [d] | None \<Rightarrow> [])
              else [])"
proof -
  define ag2 where "ag2 = completedReviews e cs (essayAgenda e hasEssay)"
  define slot where "slot = findNextAvailableSlot e (directedPhase e allTopics (today e + 1) ag2)
                              (today e + 1 + 7) False"
  let ?f = "simulationPhase e [] cs allTopics (today e + 1) ag2"
  have b: "buildAgenda e hasEssay allTopics cs rnd = ?f"
    unfolding buildAgenda_cases Let_def ag2_def using assms by simp
  have z: "filter_mset isBasic (mset (sessionsToCreate ag2)) = {#}"
    by (simp add: ag2_def basic_completedReviews basic_essayAgenda)
  have g: "simulationGate [] cs allTopics \<longleftrightarrow> progressPercentage cs allTopics \<ge> 95 / 100"
    by (simp add: simulationGate_def)
  have m: "filter_mset isBasic (mset (sessionsToCreate ?f))
             = (if progressPercentage cs allTopics \<ge> 95 / 100
                then (case slot of Some d \<Rightarrow> {#withDate basicCompleteDraft d#} | None \<Rightarrow> {#})
                else {#})"
    by (subst basic_simulationPhase) (simp_all add: z g slot_def)
  show ?thesis
  proof (cases "progressPercentage cs allTopics \<ge> 95 / 100")
    case False
    with m have "filter isBasic (sessionsToCreate ?f) = []"
      by (intro filter_Nil_of_mset) simp
    with False show ?thesis
      unfolding b by simp
  next
    case True
    show ?thesis
    proof (cases slot)
      case None
      with m True have "filter isBasic (sessionsToCreate ?f) = []"
        by (intro filter_Nil_of_mset) simp
      with True None show ?thesis
        unfolding b slot_def [symmetric] ag2_def [symmetric] by simp
    next
      case (Some d)
      with m True have "filter isBasic (sessionsToCreate ?f) = [withDate basicCompleteDraft d]"
        by (intro filter_singleton_mset) simp
      with True Some show ?thesis
        unfolding b slot_def [symmetric] ag2_def [symmetric] by simp
    qed
  qed
qed

text \<open>
  Claim C6, amended. In a generate run that reaches the exam-simulation phase (the plan
  has topics and none is pending; no new topic was scheduled, so the maintenance start
  is today + 1), the basic-full-mock phase places exactly one session, at the first
  available slot on or after maintenance start + 7 days, whenever the topics marked
  done with a completion date are at least 95 percent of all topics; it places none when
  they are fewer or when no slot is left up to the exam date. The slot is searched in
  the agenda as the directed mocks left it, and is the first date from the start date to
  the exam date with hours and fewer sessions than its capacity.
\<close>

theorem basic_full_mock_gating:
  fixes st :: store and req :: generate_request and now :: int and rnd :: "nat \<Rightarrow> rat"
  defines "rows \<equiv> sessions (snd (generate st req now rnd))"
  assumes "plan st = Some p" and "totalWeeklyHours (req_study_hours_per_day req) \<noteq> 0"
    and "topics st \<noteq> []" and "\<forall>t \<in> set (topics st). status t = Concluido"
  defines "e \<equiv> planningRunOf p req now"
  defines "completedTopics \<equiv> completedTopicsQuery (topics st)"
  shows "map session_date
           (filter (\<lambda>s. topicDescription s = SimuladoCompletoGeralDescription) rows)
         = (if (of_nat (length completedTopics) :: rat) / of_nat (length (topics st)) \<ge> 95 / 100
            then (case findNextAvailableSlot e
                         (directedPhase e (allTopicsQuery (topics st)) (now + 1)
                            (completedReviews e completedTopics (essayAgenda e (has_essay p))))
                         (now + 1 + 7) False of
                    Some d \<Rightarrow> [d] | None \<Rightarrow> [])
            else [])
       \<and> (findNextAvailableSlot e ag s False = Some d
            \<longleftrightarrow> s \<le> d \<and> d \<le> exam_date p \<and> hoursOf (hours e) (getDay d) > 0 \<and> room e ag d
                \<and> (\<forall>d'. s \<le> d' \<and> d' < d \<longrightarrow> \<not> (hoursOf (hours e) (getDay d') > 0 \<and> room e ag d')))"
proof
  have rows: "rows = insertSessions (next_session_id st)
                 (sessionsToCreate (buildAgenda e (has_essay p) (allTopicsQuery (topics st))
                    completedTopics rnd))"
    unfolding rows_def e_def completedTopics_def
    using generate_sessions [OF assms(2,3)] assms(4) by simp
  have pend: "filter (\<lambda>t. status t \<noteq> Concluido) (allTopicsQuery (topics st)) = []"
    using assms(5) by (simp add: filter_empty_conv)
  have t: "today e = now"
    by (simp add: e_def planningRunOf_def)
  show "map session_date
           (filter (\<lambda>s. topicDescription s = SimuladoCompletoGeralDescription) rows)
         = (if (of_nat (length completedTopics) :: rat) / of_nat (length (topics st)) \<ge> 95 / 100
            then (case findNextAvailableSlot e
                         (directedPhase e (allTopicsQuery (topics st)) (now + 1)
                            (completedReviews e completedTopics (essayAgenda e (has_essay p))))
                         (now + 1 + 7) False of
                    Some d \<Rightarrow> [d] | None \<Rightarrow> [])
            else [])"
    unfolding rows insertSessions_filter_description buildAgenda_basic [OF pend]
    by (simp add: progressPercentage_def t)
next
  have "examDate e = exam_date p"
    by (simp add: e_def planningRunOf_def)
  then show "findNextAvailableSlot e ag s False = Some d
            \<longleftrightarrow> s \<le> d \<and> d \<le> exam_date p \<and> hoursOf (hours e) (getDay d) > 0 \<and> room e ag d
                \<and> (\<forall>d'. s \<le> d' \<and> d' < d \<longrightarrow> \<not> (hoursOf (hours e) (getDay d') > 0 \<and> room e ag d'))"
    unfolding findNextAvailableSlot_Some isAvailable_def by simp
qed

text \<open>
  Claim C6 as stated gates the basic full mock at three completed topics. With a single
  topic, completed, the run places the basic full mock (on day 12).
\<close>

theorem basic_full_mock_one_completed_topic:
  "length (filter (\<lambda>t. status t = Concluido) (topics doneTopicStore)) = 1
   \<and> map session_date
        (filter (\<lambda>s. topicDescription s = SimuladoCompletoGeralDescription)
           (sessions (snd (generate doneTopicStore weekRequest 4 (\<lambda>i. 0))))) = [12]"
  by code_simp

theorem basic_full_mock_gating_witness:
  "plan doneTopicStore = Some weekPlan
   \<and> totalWeeklyHours (req_study_hours_per_day weekRequest) \<noteq> 0
   \<and> map status (topics doneTopicStore) = [Concluido]
   \<and> (of_nat (length (completedTopicsQuery (topics doneTopicStore))) :: rat)
        / of_nat (length (topics doneTopicStore)) \<ge> 95 / 100
   \<and> map session_date
        (filter (\<lambda>s. topicDescription s = SimuladoCompletoGeralDescription)
           (sessions (snd (generate doneTopicStore weekRequest 4 (\<lambda>i. 0)))))
       = (case findNextAvailableSlot (planningRunOf weekPlan weekRequest 4)
                 (directedPhase (planningRunOf weekPlan weekRequest 4)
                    (allTopicsQuery (topics doneTopicStore)) 5
                    (completedReviews (planningRunOf weekPlan weekRequest 4)
                       (completedTopicsQuery (topics doneTopicStore))
                       (essayAgenda (planningRunOf weekPlan weekRequest 4) (has_essay weekPlan))))
                 12 False of
            Some d \<Rightarrow> [d] | None \<Rightarrow> [])"
proof -
  have a: "plan doneTopicStore = Some weekPlan"
    by (simp add: doneTopicStore_def)
  have b: "totalWeeklyHours (req_study_hours_per_day weekRequest) \<noteq> 0"
    by code_simp
  have c: "topics doneTopicStore \<noteq> []"
    by (simp add: doneTopicStore_def)
  have m: "map status (topics doneTopicStore) = [Concluido]"
    by (simp add: doneTopicStore_def doneTopic_def)
  have d: "\<forall>t \<in> set (topics doneTopicStore). status t = Concluido"
    by (simp add: doneTopicStore_def doneTopic_def)
  have g: "(of_nat (length (completedTopicsQuery (topics doneTopicStore))) :: rat)
        / of_nat (length (topics doneTopicStore)) \<ge> 95 / 100"
    by code_simp
  from basic_full_mock_gating [OF a b c d, of 4 "\<lambda>i. 0"] g a b m show ?thesis
    by simp
qed

subsection \<open>Overdue redistribution\<close>

lemma previewScan_cursor:
  "snd (previewScan h dur exam cache c) \<or> exam < fst (previewScan h dur exam cache c)"
proof (induction h dur exam cache c rule: previewScan.induct)
  case (1 h dur exam cache c)
  show ?case
  proof (cases "c \<le> exam")
    case False
    then show ?thesis
      by (subst (1 2) previewScan.simps) simp
  next
    case True
    show ?thesis
      using 1 [OF True refl refl refl refl] True
      by (subst (1 2) previewScan.simps) (simp add: Let_def)
  qed
qed

lemma previewScan_past:
  assumes "exam < c"
  shows "previewScan h dur exam cache c = (c, False)"
  using assms by (subst previewScan.simps) simp

lemma previewLoop_past:
  assumes "exam < c"
  shows "previewLoop h dur exam ss c cache = []"
  using assms by (induction ss) (simp_all add: previewScan_past)

lemma previewLoop_prefix:
  "length (previewLoop h dur exam ss c cache) \<le> length ss
   \<and> map sessionId (previewLoop h dur exam ss c cache)
       = take (length (previewLoop h dur exam ss c cache)) (map session_id ss)
   \<and> map originalDate (previewLoop h dur exam ss c cache)
       = take (length (previewLoop h dur exam ss c cache)) (map session_date ss)"
proof (induction ss arbitrary: c cache)
  case Nil
  then show ?case by simp
next
  case (Cons s ss)
  obtain d found where sc: "previewScan h dur exam cache c = (d, found)"
    by (cases "previewScan h dur exam cache c")
  show ?case
  proof (cases found)
    case True
    define cache' where
      "cache' = cache(d \<mapsto> (case cache d of None \<Rightarrow> 0 | Some c \<Rightarrow> c) + 1)"
    have eq: "previewLoop h dur exam (s # ss) c cache
                = \<lparr>sessionId = session_id s, topic = topicDescription s, subject = subjectName s,
                    previewSessionType = sessionType s, originalDate = session_date s, newDate = d\<rparr>
                  # previewLoop h dur exam ss d cache'"
      using sc True unfolding cache'_def by (simp del: fun_upd_apply)
    show ?thesis
      unfolding eq using Cons.IH [of d cache'] by simp
  next
    case False
    with sc previewScan_cursor [of h dur exam cache c] have "exam < d"
      by simp
    with sc False show ?thesis
      by (simp add: previewLoop_past)
  qed
qed

lemma overdueSessions_set:
  "set (overdueSessions rows todayStr)
     = {s \<in> set rows. session_status s = Pendente \<and> session_date s < todayStr}"
  by (auto simp: overdueSessions_def)

lemma overdueSessions_sorted:
  "sorted (map (\<lambda>s. (session_date s, session_id s)) (overdueSessions rows todayStr))"
  by (simp add: overdueSessions_def)

text \<open>The preview handler returns the store it was given.\<close>

lemma replanPreviewHandler_store: "snd (replanPreviewHandler st todayStr) = st"
  by (simp add: replanPreviewHandler_def Let_def split: option.splits)

text \<open>
  Claim C7, amended. For a plan with overdue work the preview simulates the overdue
  pending sessions in the order of original date, then id, and gives one entry to each
  of the first \<open>totalToReplan\<close> of them, those for which its scan finds a date up to
  the exam date; the response lists the first five of these entries, reports the number
  of overdue sessions as \<open>count\<close>, and leaves the store as it is.
\<close>

theorem replanPreview_contract:
  fixes st :: store and todayStr :: int
  defines "overdue \<equiv> overdueSessions (sessions st) todayStr"
  assumes "plan st = Some p" and "overdue \<noteq> []"
  defines "simulated \<equiv> replanPreviewList p (sessions st) todayStr"
  shows "replanPreviewHandler st todayStr
           = (HasOverdue \<lparr>preview_result.count = length overdue,
                          replanPreview = take 5 simulated,
                          totalToReplan = length simulated\<rparr>, st)
       \<and> length simulated \<le> length overdue
       \<and> map sessionId (take 5 simulated)
           = take (min 5 (length simulated)) (map session_id overdue)
       \<and> map originalDate (take 5 simulated)
           = take (min 5 (length simulated)) (map session_date overdue)
       \<and> sorted (map (\<lambda>s. (session_date s, session_id s)) overdue)
       \<and> set overdue = {s \<in> set (sessions st). session_status s = Pendente \<and> session_date s < todayStr}"
proof -
  note pre = previewLoop_prefix [of "study_hours_per_day p" "planSessionDuration p" "exam_date p"
      overdue todayStr "sessionCountsQuery (sessions st) todayStr (exam_date p)"]
  have s: "simulated = previewLoop (study_hours_per_day p) (planSessionDuration p) (exam_date p)
             overdue todayStr (sessionCountsQuery (sessions st) todayStr (exam_date p))"
    by (simp add: simulated_def replanPreviewList_def overdue_def)
  have 1: "replanPreviewHandler st todayStr
           = (HasOverdue \<lparr>preview_result.count = length overdue,
                          replanPreview = take 5 simulated,
                          totalToReplan = length simulated\<rparr>, st)"
    using assms(2,3)
    by (simp add: replanPreviewHandler_def Let_def overdue_def simulated_def)
  have 2: "length simulated \<le> length overdue"
    using pre by (simp add: s)
  have 3: "map sessionId (take 5 simulated) = take (min 5 (length simulated)) (map session_id overdue)"
    using pre by (simp add: s take_map [symmetric] min.commute)
  have 4: "map originalDate (take 5 simulated)
             = take (min 5 (length simulated)) (map session_date overdue)"
    using pre by (simp add: s take_map [symmetric] min.commute)
  from 1 2 3 4 show ?thesis
    by (simp add: overdue_def overdueSessions_set overdueSessions_sorted)
qed

text \<open>
  Claim C7 as stated promises one entry for each overdue pending session. With six
  overdue sessions, all of which find a slot, the response lists five.
\<close>

theorem replanPreview_lists_five_of_six:
  "length (overdueSessions (sessions sixOverdueStore) 4) = 6
   \<and> fst (replanPreviewHandler sixOverdueStore 4)
       = HasOverdue
           \<lparr>preview_result.count = 6,
            replanPreview =
              [\<lparr>sessionId = 1, topic = TopicDescription ''t'', subject = SubjectName ''s1'',
                 previewSessionType = NovoTopico, originalDate = 1, newDate = 4\<rparr>,
               \<lparr>sessionId = 2, topic = TopicDescription ''t'', subject = SubjectName ''s1'',
                 previewSessionType = NovoTopico, originalDate = 1, newDate = 4\<rparr>,
               \<lparr>sessionId = 3, topic = TopicDescription ''t'', subject = SubjectName ''s1'',
                 previewSessionType = NovoTopico, originalDate = 1, newDate = 4\<rparr>,
               \<lparr>sessionId = 4, topic = TopicDescription ''t'', subject = SubjectName ''s1'',
                 previewSessionType = NovoTopico, originalDate = 2, newDate = 4\<rparr>,
               \<lparr>sessionId = 5, topic = TopicDescription ''t'', subject = SubjectName ''s1'',
                 previewSessionType = NovoTopico, originalDate = 2, newDate = 5\<rparr>],
            totalToReplan = 6\<rparr>"
  by code_simp

theorem replanPreview_contract_witness:
  "plan sixOverdueStore = Some weekPlan
   \<and> overdueSessions (sessions sixOverdueStore) 4 \<noteq> []
   \<and> snd (replanPreviewHandler sixOverdueStore 4) = sixOverdueStore
   \<and> length (replanPreviewList weekPlan (sessions sixOverdueStore) 4) = 6
   \<and> map sessionId (take 5 (replanPreviewList weekPlan (sessions sixOverdueStore) 4))
       = take 5 (map session_id (overdueSessions (sessions sixOverdueStore) 4))"
proof -
  have a: "plan sixOverdueStore = Some weekPlan"
    by (simp add: sixOverdueStore_def)
  have b: "overdueSessions (sessions sixOverdueStore) 4 \<noteq> []"
    by code_simp
  have n: "length (replanPreviewList weekPlan (sessions sixOverdueStore) 4) = 6"
    by code_simp
  from replanPreview_contract [OF a b] a b n show ?thesis
    by simp
qed

text \<open>
  Claim C2 says that the commit moves every overdue session to the date the preview
  showed. The commit skips every Sunday; the preview does not. On a Sunday (day 10) with
  one hour on every day and sessions of 60 minutes, the preview shows the overdue
  session on day 10 and the commit moves it to day 11 (and adds 1 to the postponement
  counter).
\<close>

theorem replan_commit_differs_from_preview:
  "fst (replanPreviewHandler sundayStore 10)
     = HasOverdue
         \<lparr>preview_result.count = 1,
          replanPreview =
            [\<lparr>sessionId = 1, topic = TopicDescription ''t'', subject = SubjectName ''s1'',
               previewSessionType = NovoTopico, originalDate = 9, newDate = 10\<rparr>],
          totalToReplan = 1\<rparr>
   \<and> map (\<lambda>s. (session_id s, session_date s)) (sessions (snd (replanCommit sundayStore 10)))
       = [(1, 11)]
   \<and> map postponement_count (case plan (snd (replanCommit sundayStore 10)) of
                                 None \<Rightarrow> [] | Some q \<Rightarrow> [q]) = [1]"
  by code_simp

text \<open>The commit adds exactly one to the postponement counter when there is overdue work.\<close>

lemma replanCommit_counter:
  assumes "plan st = Some p" and "overdueSessions (sessions st) todayStr \<noteq> []"
  shows "map_option postponement_count (plan (snd (replanCommit st todayStr)))
           = Some (postponement_count p + 1)"
  using assms by (simp add: replanCommit_def)

subsection \<open>Capacity apart from the essay session\<close>

lemma placed_capacity:
  assumes "placed ok ag ag'" and "\<And>a d s. ok a d s \<Longrightarrow> slotOk e a d"
  shows "int (sessionsOn ag' d) \<le> max (capacity e d) (int (sessionsOn ag d))"
  using assms(1)
proof (induction rule: placed.induct)
  case placed_refl
  then show ?case by simp
next
  case (placed_add ag' x s)
  from assms(2) [OF placed_add.hyps(2)] have "int (sessionsOn ag' x) < capacity e x"
    by (simp add: slotOk_def room_def)
  with placed_add.IH show ?case
    by (auto simp: sessionsOn_add)
qed

lemma mset_sessionsToCreate_fold_add:
  "mset (sessionsToCreate (fold (\<lambda>di. addSessionToAgenda (date di) x) dis ag))
     = mset (sessionsToCreate ag) + image_mset (\<lambda>di. withDate x (date di)) (mset dis)"
  by (induction dis arbitrary: ag) (simp_all add: mset_sessionsToCreate_add)

lemma count_le_one_distinct:
  assumes "distinct (map f xs)"
  shows "length (filter (\<lambda>x. f x = d) xs) \<le> 1"
  using assms by (induction xs) (auto simp: filter_empty_conv rev_image_eqI)

lemma essayAgenda_count:
  "sessionsOn (essayAgenda e hasEssay) d \<le> 1"
proof -
  let ?dis = "filter (\<lambda>di. dayOfWeek di = 0) (getAvailableDates e (today e) (examDate e) False)"
  have "distinct (map date (getAvailableDates e (today e) (examDate e) False))"
    by (simp add: getAvailableDates_upto o_def dateInfoOf_def distinct_map_filter)
  then have dd: "distinct (map date ?dis)"
    by (rule distinct_map_filter)
  have "countOn (essayPhase e []) d = length (filter (\<lambda>di. date di = d) ?dis)"
    by (simp add: countOn_mset essayPhase_def mset_sessionsToCreate_fold_add
        filter_mset_image_mset flip: mset_filter)
  with count_le_one_distinct [OF dd, of d] have "countOn (essayPhase e []) d \<le> 1"
    by simp
  moreover have "countOn [] d = 0"
    by (simp add: countOn_def)
  ultimately have "countOn (essayAgenda e hasEssay) d \<le> 1"
    by (simp add: essayAgenda_def)
  then show ?thesis
    by (simp add: agenda_counted_essayAgenda)
qed

lemma essayAgenda_count_zero:
  assumes "\<not> (hasEssay \<and> getDay d = 0 \<and> hoursOf (hours e) 0 > 0)"
  shows "sessionsOn (essayAgenda e hasEssay) d = 0"
proof -
  have "\<forall>s \<in> set (sessionsToCreate (essayAgenda e hasEssay)). session_date s \<noteq> d"
    using essayAgenda_sessions [of _ e hasEssay] assms
    by (metis isAvailable_def)
  then have "countOn (essayAgenda e hasEssay) d = 0"
    by (simp add: countOn_def filter_empty_conv)
  then show ?thesis
    by (simp add: agenda_counted_essayAgenda)
qed

lemma capacity_nonneg:
  assumes "\<forall>v \<in> set (map snd (hours e)). 0 \<le> v" and "0 < sessionDuration e"
  shows "0 \<le> capacity e d"
proof -
  have "0 \<le> hoursOf (hours e) (getDay d)"
    using assms(1) by (auto simp: hoursOf_def split: option.splits dest!: map_of_SomeD)
  with assms(2) show ?thesis
    by (simp add: capacity_def)
qed

text \<open>
  The sessions of a date stay within its capacity, except that a Sunday with hours may
  hold the one essay session when its capacity is zero.
\<close>

lemma buildAgenda_capacity:
  "int (countOn (buildAgenda e hasEssay allTopics cs rnd) d)
     \<le> max (capacity e d) (int (sessionsOn (essayAgenda e hasEssay) d))"
  using placed_capacity [OF placed_buildAgenda, where e = e and d = d] placementOk_slotOk
  by (simp add: agenda_counted_buildAgenda)

lemma generate_capacity:
  assumes "plan st = Some p" and "totalWeeklyHours (req_study_hours_per_day req) \<noteq> 0"
    and "\<forall>v \<in> set (map snd (req_study_hours_per_day req)). 0 \<le> v"
    and "0 < req_session_duration_minutes req"
    and "\<not> has_essay p \<or> hoursOf (req_study_hours_per_day req) 0 \<le> 0
         \<or> 60 * hoursOf (req_study_hours_per_day req) 0 \<ge> of_int (req_session_duration_minutes req)"
  shows "int (length (filter (\<lambda>s. session_date s = d) (sessions (snd (generate st req now rnd)))))
           \<le> capacity (planningRunOf p req now) d"
proof -
  let ?e = "planningRunOf p req now"
  let ?ag = "buildAgenda ?e (has_essay p) (allTopicsQuery (topics st))
               (completedTopicsQuery (topics st)) rnd"
  have h: "hours ?e = req_study_hours_per_day req"
    and du: "sessionDuration ?e = req_session_duration_minutes req"
    using assms(4) by (simp_all add: planningRunOf_def)
  have nn: "0 \<le> capacity ?e d"
    by (rule capacity_nonneg) (use assms(3,4) h du in simp_all)
  have es: "int (sessionsOn (essayAgenda ?e (has_essay p)) d) \<le> capacity ?e d"
  proof (cases "has_essay p \<and> getDay d = 0 \<and> hoursOf (hours ?e) 0 > 0")
    case False
    then show ?thesis
      using essayAgenda_count_zero [of "has_essay p" d ?e] nn by simp
  next
    case True
    with assms(5) h
    have "of_int (req_session_duration_minutes req) \<le> hoursOf (req_study_hours_per_day req) 0 * 60"
      by (simp add: mult.commute)
    then have "1 \<le> hoursOf (req_study_hours_per_day req) 0 * 60 / of_int (req_session_duration_minutes req)"
      using assms(4) by (simp add: le_divide_eq)
    then have "1 \<le> capacity ?e d"
      using True by (simp add: capacity_def h du le_floor_iff)
    with essayAgenda_count [of ?e "has_essay p" d] show ?thesis
      by simp
  qed
  have "int (countOn ?ag d) \<le> capacity ?e d"
    using buildAgenda_capacity [of ?e "has_essay p" _ _ rnd d] es by simp
  with nn show ?thesis
    by (simp add: generate_sessions [OF assms(1,2)] insertSessions_filter_date countOn_def)
qed

subsection \<open>Preview and commit without Sunday hours\<close>

text \<open>
  With the seven weekday keys present, no hours on Sunday and a positive session
  duration, the two slot searches agree as long as the preview's cache holds the stored
  session counts of the dates from the cursor on.
\<close>

lemma getDay_less_7: "getDay d < 7"
  by (simp add: getDay_def)

lemma previewHoursForDay_keys:
  assumes "objectKeys h = [0, 1, 2, 3, 4, 5, 6]"
  shows "previewHoursForDay h (getDay d) = hoursOf h (getDay d)"
proof -
  have "[0, 1, 2, 3, 4, 5, 6 :: nat] ! k = k" if "k < 7" for k
  proof -
    from that have "k \<in> {0, 1, 2, 3, 4, 5, 6}" by auto
    then show ?thesis by auto
  qed
  with getDay_less_7 [of d] show ?thesis
    by (simp add: previewHoursForDay_def assms)
qed

lemma fits_iff:
  assumes "0 < dur"
  shows "(x > 0 \<and> rat_of_int (n * dur + dur) \<le> x * 60) \<longleftrightarrow> (x * 60 > 0 \<and> n < \<lfloor>x * 60 / rat_of_int dur\<rfloor>)"
proof -
  have "n < \<lfloor>x * 60 / rat_of_int dur\<rfloor> \<longleftrightarrow> n + 1 \<le> \<lfloor>x * 60 / rat_of_int dur\<rfloor>"
    by linarith
  also have "\<dots> \<longleftrightarrow> rat_of_int (n + 1) \<le> x * 60 / rat_of_int dur"
    by (rule le_floor_iff)
  also have "\<dots> \<longleftrightarrow> rat_of_int (n + 1) * rat_of_int dur \<le> x * 60"
    using assms by (simp add: le_divide_eq)
  also have "rat_of_int (n + 1) * rat_of_int dur = rat_of_int (n * dur + dur)"
    by (simp add: algebra_simps)
  finally show ?thesis
    by auto
qed

lemma previewScan_step:
  "previewScan h dur exam cache c =
     (if c \<le> exam
      then (if previewHoursForDay h (getDay c) > 0
               \<and> rat_of_int (int (cacheCount cache c) * dur + dur) \<le> previewHoursForDay h (getDay c) * 60
            then (c, True) else previewScan h dur exam cache (c + 1))
      else (c, False))"
  by (subst previewScan.simps) (auto simp: Let_def cacheCount_def split: option.splits)

lemma replanFindNextAvailableSlot_step:
  "replanFindNextAvailableSlot h dur exam rows c =
     (if c \<le> exam
      then (if getDay c \<noteq> 0 \<and> hoursOf h (getDay c) * 60 > 0
               \<and> int (storedOn rows c) < \<lfloor>hoursOf h (getDay c) * 60 / rat_of_int dur\<rfloor>
            then Some c else replanFindNextAvailableSlot h dur exam rows (c + 1))
      else None)"
  by (subst replanFindNextAvailableSlot.simps) (simp add: Let_def storedOn_def)

lemma previewScan_replanFind:
  assumes "objectKeys h = [0, 1, 2, 3, 4, 5, 6]" and "hoursOf h 0 \<le> 0" and "0 < dur"
    and "\<forall>d. c \<le> d \<and> d \<le> exam \<longrightarrow> cacheCount cache d = storedOn rows d"
  shows "previewScan h dur exam cache c
           = (case replanFindNextAvailableSlot h dur exam rows c of
                Some d \<Rightarrow> (d, True) | None \<Rightarrow> (max c (exam + 1), False))"
  using assms(4)
proof (induction "nat (exam + 1 - c)" arbitrary: c)
  case 0
  then have "\<not> c \<le> exam" by simp
  then show ?case
    by (subst previewScan_step, subst replanFindNextAvailableSlot_step) simp
next
  case (Suc n)
  then have le: "c \<le> exam" by simp
  let ?x = "hoursOf h (getDay c)"
  have cc: "cacheCount cache c = storedOn rows c"
    using Suc.prems le by simp
  have ph: "previewHoursForDay h (getDay c) = ?x"
    by (rule previewHoursForDay_keys [OF assms(1)])
  have same: "(previewHoursForDay h (getDay c) > 0
                \<and> rat_of_int (int (cacheCount cache c) * dur + dur) \<le> previewHoursForDay h (getDay c) * 60)
              \<longleftrightarrow> (getDay c \<noteq> 0 \<and> ?x * 60 > 0
                   \<and> int (storedOn rows c) < \<lfloor>?x * 60 / rat_of_int dur\<rfloor>)"
    unfolding ph cc
  proof (cases "getDay c = 0")
    case True
    with assms(2) have "\<not> ?x > 0"
      by simp
    with True show "(?x > 0 \<and> rat_of_int (int (storedOn rows c) * dur + dur) \<le> ?x * 60)
              \<longleftrightarrow> (getDay c \<noteq> 0 \<and> ?x * 60 > 0
                   \<and> int (storedOn rows c) < \<lfloor>?x * 60 / rat_of_int dur\<rfloor>)"
      by blast
  next
    case False
    with fits_iff [OF assms(3), of ?x "int (storedOn rows c)"]
    show "(?x > 0 \<and> rat_of_int (int (storedOn rows c) * dur + dur) \<le> ?x * 60)
              \<longleftrightarrow> (getDay c \<noteq> 0 \<and> ?x * 60 > 0
                   \<and> int (storedOn rows c) < \<lfloor>?x * 60 / rat_of_int dur\<rfloor>)"
      by blast
  qed
  have ih: "previewScan h dur exam cache (c + 1)
             = (case replanFindNextAvailableSlot h dur exam rows (c + 1) of
                  Some d \<Rightarrow> (d, True) | None \<Rightarrow> (max (c + 1) (exam + 1), False))"
    using Suc.hyps(2) Suc.prems by (intro Suc.hyps(1)) auto
  have mx: "max (c + 1) (exam + 1) = max c (exam + 1)"
    using le by simp
  let ?P = "previewHoursForDay h (getDay c) > 0
             \<and> rat_of_int (int (cacheCount cache c) * dur + dur) \<le> previewHoursForDay h (getDay c) * 60"
  let ?Q = "getDay c \<noteq> 0 \<and> ?x * 60 > 0
             \<and> int (storedOn rows c) < \<lfloor>?x * 60 / rat_of_int dur\<rfloor>"
  have ps: "previewScan h dur exam cache c
              = (if ?P then (c, True) else previewScan h dur exam cache (c + 1))"
    by (subst previewScan_step) (simp only: le if_True)
  have rf: "replanFindNextAvailableSlot h dur exam rows c
              = (if ?Q then Some c else replanFindNextAvailableSlot h dur exam rows (c + 1))"
    by (subst replanFindNextAvailableSlot_step) (simp only: le if_True)
  show ?case
  proof (cases ?P)
    case True
    with same have q: ?Q by blast
    have "previewScan h dur exam cache c = (c, True)"
      unfolding ps by (rule if_P [OF True])
    moreover have "replanFindNextAvailableSlot h dur exam rows c = Some c"
      unfolding rf by (rule if_P [OF q])
    ultimately show ?thesis
      by simp
  next
    case False
    with same have q: "\<not> ?Q" by blast
    have "previewScan h dur exam cache c = previewScan h dur exam cache (c + 1)"
      unfolding ps by (rule if_not_P [OF False])
    moreover have "replanFindNextAvailableSlot h dur exam rows c
                     = replanFindNextAvailableSlot h dur exam rows (c + 1)"
      unfolding rf by (rule if_not_P [OF q])
    ultimately show ?thesis
      by (simp only: ih mx)
  qed
qed

lemma replanFindNextAvailableSlot_range:
  assumes "replanFindNextAvailableSlot h dur exam rows c = Some d"
  shows "c \<le> d \<and> d \<le> exam"
  using assms
proof (induction "nat (exam + 1 - c)" arbitrary: c)
  case 0
  then have "\<not> c \<le> exam" by simp
  with 0 show ?case
    by (subst (asm) replanFindNextAvailableSlot_step) simp
next
  case (Suc n)
  then have le: "c \<le> exam" by simp
  have st: "replanFindNextAvailableSlot h dur exam rows c
              = (if getDay c \<noteq> 0 \<and> hoursOf h (getDay c) * 60 > 0
                    \<and> int (storedOn rows c) < \<lfloor>hoursOf h (getDay c) * 60 / rat_of_int dur\<rfloor>
                 then Some c else replanFindNextAvailableSlot h dur exam rows (c + 1))"
    using le by (subst replanFindNextAvailableSlot_step) simp
  show ?case
  proof (cases "replanFindNextAvailableSlot h dur exam rows c
                  = replanFindNextAvailableSlot h dur exam rows (c + 1)")
    case True
    from Suc.hyps(2) have "n = nat (exam + 1 - (c + 1))" by simp
    from Suc.hyps(1) [OF this] True Suc.prems show ?thesis by simp
  next
    case False
    with st have "replanFindNextAvailableSlot h dur exam rows c = Some c"
      by presburger
    with Suc.prems le show ?thesis by simp
  qed
qed

text \<open>Moving the one row with a given id from an earlier date to \<open>d\<close>.\<close>

lemma storedOn_update_other:
  assumes "\<forall>r \<in> set rows. session_id r = i \<longrightarrow> session_date r \<noteq> d'" and "d' \<noteq> d"
  shows "storedOn (updateSessionDate i d rows) d' = storedOn rows d'"
  using assms by (induction rows) (auto simp: storedOn_def updateSessionDate_def)

lemma storedOn_update_target:
  assumes "distinct (map session_id rows)" and "r \<in> set rows" and "session_id r = i"
    and "session_date r \<noteq> d"
  shows "storedOn (updateSessionDate i d rows) d = Suc (storedOn rows d)"
  using assms
proof (induction rows)
  case Nil
  then show ?case by simp
next
  case (Cons x rows)
  show ?case
  proof (cases "session_id x = i")
    case True
    with Cons.prems have x: "x = r"
      by (auto simp: rev_image_eqI)
    from True Cons.prems(1) have "\<forall>y \<in> set rows. session_id y \<noteq> i"
      by (auto simp: rev_image_eqI)
    then have "updateSessionDate i d rows = rows"
      by (auto simp: updateSessionDate_def intro: map_idI)
    with True x Cons.prems(4) show ?thesis
      by (simp add: storedOn_def updateSessionDate_def)
  next
    case False
    with Cons.prems have "r \<in> set rows"
      by auto
    with Cons.IH Cons.prems False show ?thesis
      by (simp add: storedOn_def updateSessionDate_def)
  qed
qed

lemma updateSessionDate_ids [simp]:
  "map session_id (updateSessionDate i d rows) = map session_id rows"
  by (induction rows) (simp_all add: updateSessionDate_def)

lemma updateSessionDate_other:
  assumes "r \<in> set rows" and "session_id r \<noteq> i"
  shows "r \<in> set (updateSessionDate i d rows)"
  using assms by (auto simp: updateSessionDate_def rev_image_eqI)

lemma replanLoop_previewLoop:
  assumes "objectKeys h = [0, 1, 2, 3, 4, 5, 6]" and "hoursOf h 0 \<le> 0" and "0 < dur"
    and "\<forall>d. c \<le> d \<and> d \<le> exam \<longrightarrow> cacheCount cache d = storedOn rows d"
    and "distinct (map session_id rows)" and "distinct (map session_id ss)"
    and "\<forall>s \<in> set ss. \<exists>r \<in> set rows. session_id r = session_id s \<and> session_date r < c"
  shows "replanLoop h dur exam ss c rows
           = fold (\<lambda>en. updateSessionDate (sessionId en) (newDate en))
               (previewLoop h dur exam ss c cache) rows"
  using assms(4-7)
proof (induction ss arbitrary: c cache rows)
  case Nil
  then show ?case by simp
next
  case (Cons s ss)
  note sc = previewScan_replanFind [OF assms(1,2,3) Cons.prems(1)]
  show ?case
  proof (cases "replanFindNextAvailableSlot h dur exam rows c")
    case None
    with sc have "previewScan h dur exam cache c = (max c (exam + 1), False)"
      by simp
    with None show ?thesis
      by (simp add: previewLoop_past)
  next
    case (Some d)
    from replanFindNextAvailableSlot_range [OF Some] have d: "c \<le> d" "d \<le> exam"
      by simp_all
    define cache' where
      "cache' = cache(d \<mapsto> (case cache d of None \<Rightarrow> 0 | Some c \<Rightarrow> c) + 1)"
    define rows' where "rows' = updateSessionDate (session_id s) d rows"
    from sc Some have ps: "previewScan h dur exam cache c = (d, True)"
      by simp
    from Cons.prems(4) obtain r where r: "r \<in> set rows" "session_id r = session_id s"
        "session_date r < c"
      by auto
    have only: "session_date x < c" if "x \<in> set rows" "session_id x = session_id s" for x
    proof -
      from Cons.prems(2) have "inj_on session_id (set rows)"
        by (simp add: distinct_map)
      with that r(1,2) have "x = r"
        by (simp add: inj_on_def)
      with r(3) show ?thesis by simp
    qed
    have inv: "\<forall>d'. d \<le> d' \<and> d' \<le> exam \<longrightarrow> cacheCount cache' d' = storedOn rows' d'"
    proof (intro allI impI)
      fix d'
      assume a: "d \<le> d' \<and> d' \<le> exam"
      with d have old: "cacheCount cache d' = storedOn rows d'"
        using Cons.prems(1) by simp
      show "cacheCount cache' d' = storedOn rows' d'"
      proof (cases "d' = d")
        case True
        have "storedOn rows' d = Suc (storedOn rows d)"
          unfolding rows'_def using r(3) d(1)
          by (intro storedOn_update_target [OF Cons.prems(2) r(1) r(2)]) simp
        with old True show ?thesis
          by (simp add: cache'_def cacheCount_def)
      next
        case False
        have "storedOn rows' d' = storedOn rows d'"
          unfolding rows'_def using only a d(1) False
          by (intro storedOn_update_other) fastforce+
        with old False show ?thesis
          by (simp add: cache'_def cacheCount_def)
      qed
    qed
    have di: "distinct (map session_id rows')"
      using Cons.prems(2) by (simp add: rows'_def)
    have ds: "distinct (map session_id ss)"
      using Cons.prems(3) by simp
    have rest: "\<forall>x \<in> set ss. \<exists>y \<in> set rows'. session_id y = session_id x \<and> session_date y < d"
    proof
      fix x
      assume x: "x \<in> set ss"
      with Cons.prems(4) obtain y where y: "y \<in> set rows" "session_id y = session_id x"
          "session_date y < c"
        by auto
      from x Cons.prems(3) have "session_id x \<noteq> session_id s"
        by (auto simp: rev_image_eqI)
      with y have "y \<in> set rows'"
        unfolding rows'_def by (intro updateSessionDate_other) simp_all
      with y d(1) show "\<exists>y \<in> set rows'. session_id y = session_id x \<and> session_date y < d"
        by force
    qed
    have "replanLoop h dur exam ss d rows'
            = fold (\<lambda>en. updateSessionDate (sessionId en) (newDate en))
                (previewLoop h dur exam ss d cache') rows'"
      by (rule Cons.IH [OF inv di ds rest])
    moreover have "replanLoop h dur exam (s # ss) c rows = replanLoop h dur exam ss d rows'"
      using Some by (simp add: rows'_def)
    moreover have "previewLoop h dur exam (s # ss) c cache
            = \<lparr>sessionId = session_id s, topic = topicDescription s, subject = subjectName s,
                previewSessionType = sessionType s, originalDate = session_date s, newDate = d\<rparr>
              # previewLoop h dur exam ss d cache'"
      using ps unfolding cache'_def by (simp del: fun_upd_apply)
    ultimately show ?thesis
      by (simp add: rows'_def)
  qed
qed

lemma overdueSessions_distinct:
  assumes "distinct (map session_id rows)"
  shows "distinct (map session_id (overdueSessions rows todayStr))"
proof -
  let ?f = "filter (\<lambda>s. session_status s = Pendente \<and> session_date s < todayStr) rows"
  from assms have "distinct (map session_id ?f)"
    by (rule distinct_map_filter)
  then have "distinct ?f \<and> inj_on session_id (set ?f)"
    by (simp add: distinct_map)
  then show ?thesis
    by (simp add: overdueSessions_def distinct_map)
qed

text \<open>
  When the hour map has the seven weekday keys, Sunday has no hours, the session
  duration is positive and the row ids are distinct, the commit stores exactly the
  dates that the preview simulates (all of them, not only the five it lists).
\<close>

lemma replan_commit_agrees_without_sunday_hours:
  assumes "plan st = Some p" and "overdueSessions (sessions st) todayStr \<noteq> []"
    and "objectKeys (study_hours_per_day p) = [0, 1, 2, 3, 4, 5, 6]"
    and "hoursOf (study_hours_per_day p) 0 \<le> 0" and "0 < planSessionDuration p"
    and "distinct (map session_id (sessions st))"
  shows "sessions (snd (replanCommit st todayStr))
           = fold (\<lambda>en. updateSessionDate (sessionId en) (newDate en))
               (replanPreviewList p (sessions st) todayStr) (sessions st)"
proof -
  let ?rows = "sessions st"
  let ?ss = "overdueSessions ?rows todayStr"
  have inv: "\<forall>d. todayStr \<le> d \<and> d \<le> exam_date p
               \<longrightarrow> cacheCount (sessionCountsQuery ?rows todayStr (exam_date p)) d = storedOn ?rows d"
    by (simp add: cacheCount_def sessionCountsQuery_def storedOn_def Let_def)
  have own: "\<forall>s \<in> set ?ss. \<exists>r \<in> set ?rows. session_id r = session_id s \<and> session_date r < todayStr"
    by (auto simp: overdueSessions_set)
  have "replanLoop (study_hours_per_day p) (planSessionDuration p) (exam_date p) ?ss todayStr ?rows
          = fold (\<lambda>en. updateSessionDate (sessionId en) (newDate en))
              (previewLoop (study_hours_per_day p) (planSessionDuration p) (exam_date p) ?ss todayStr
                 (sessionCountsQuery ?rows todayStr (exam_date p))) ?rows"
    by (rule replanLoop_previewLoop [OF assms(3,4,5) inv assms(6)
          overdueSessions_distinct [OF assms(6)] own])
  with assms(1,2) show ?thesis
    by (simp add: replanCommit_def replanPreviewList_def)
qed

end
